theory Spec2Isabelle
  imports Complex_Main
begin

section \<open>Data model\<close>

text \<open>
  The timing engine of the video processor works on Python floats, lists and dicts.
  Floats are modelled as exact reals (no rounding, no NaN, no infinity), so every theorem
  below is about the arithmetic the code writes down, not about IEEE rounding.
  A scene is a dict from field names to floats; a timeline is a list of scenes.
  Exceptions are values of the type \<open>error\<close>: a function that can raise returns
  \<open>error + 'a\<close>, with \<open>Inl\<close> for the exception.
\<close>

type_synonym scene = "string \<rightharpoonup> real"

text \<open>The formatted messages of the \<open>ValueError\<close>s the code raises, with their arguments.\<close>

datatype message =
    Scene_missing_field nat string
  | Scene_end_not_after_start nat real real
  | Scene_duration_mismatch nat real real
  | Scene_negative_start_or_duration nat
  | Audio_duration_not_positive
  | Scene_count_not_positive

datatype error =
    ValueError message
  | KeyError string
  | IndexError
  | ZeroDivisionError

definition bind_err :: "error + 'a \<Rightarrow> ('a \<Rightarrow> error + 'b) \<Rightarrow> error + 'b" where
  "bind_err m f = (case m of Inl e \<Rightarrow> Inl e | Inr x \<Rightarrow> f x)"

text \<open>\<open>scene[key]\<close>: raises \<open>KeyError\<close> when the key is missing.\<close>

definition getitem :: "scene \<Rightarrow> string \<Rightarrow> error + real" where
  "getitem s k = (case s k of None \<Rightarrow> Inl (KeyError k) | Some v \<Rightarrow> Inr v)"

text \<open>A \<open>for\<close> loop over indices whose body may raise: the first exception ends the loop.\<close>

fun for_each :: "nat list \<Rightarrow> (nat \<Rightarrow> 's \<Rightarrow> error + 's) \<Rightarrow> 's \<Rightarrow> error + 's" where
  "for_each [] body s = Inr s"
| "for_each (i # is) body s =
     (case body i s of Inl e \<Rightarrow> Inl e | Inr s' \<Rightarrow> for_each is body s')"

section \<open>SceneGapValidator\<close>

record gap =
  after_scene :: nat
  gap_start :: real
  gap_end :: real
  gap_duration :: real

record overlap =
  scene1 :: nat
  scene2 :: nat
  overlap_start :: real
  overlap_end :: real
  overlap_duration :: real

datatype report_message =
    No_scenes_to_validate
  | Single_scene
  | Valid_continuity
  | Issues_detected nat nat

record report =
  is_valid :: bool
  gaps :: "gap list"
  overlaps :: "overlap list"
  total_duration :: real
  message :: report_message

subsection \<open>\<open>_validate_scene_data\<close>\<close>

definition required_fields :: "string list" where
  "required_fields = [''start_time'', ''end_time'', ''duration'']"

text \<open>The body of the loop of \<open>_validate_scene_data\<close> for scene \<open>i\<close>.\<close>

definition check_scene :: "real \<Rightarrow> nat \<Rightarrow> scene \<Rightarrow> error + unit" where
  "check_scene default_tolerance i scene =
     (case find (\<lambda>field. scene field = None) required_fields of
        Some field \<Rightarrow> Inl (ValueError (Scene_missing_field i field))
      | None \<Rightarrow>
          bind_err (getitem scene ''end_time'') (\<lambda>en.
          bind_err (getitem scene ''start_time'') (\<lambda>st.
            if en \<le> st then Inl (ValueError (Scene_end_not_after_start i en st))
            else
              bind_err (getitem scene ''duration'') (\<lambda>du.
                let calculated_duration = en - st in
                if \<bar>calculated_duration - du\<bar> > default_tolerance
                then Inl (ValueError (Scene_duration_mismatch i calculated_duration du))
                else if st < 0 \<or> du \<le> 0
                then Inl (ValueError (Scene_negative_start_or_duration i))
                else Inr ()))))"

fun validate_scene_data_from :: "real \<Rightarrow> nat \<Rightarrow> scene list \<Rightarrow> error + unit" where
  "validate_scene_data_from default_tolerance i [] = Inr ()"
| "validate_scene_data_from default_tolerance i (scene # rest) =
     (case check_scene default_tolerance i scene of
        Inl e \<Rightarrow> Inl e
      | Inr _ \<Rightarrow> validate_scene_data_from default_tolerance (Suc i) rest)"

definition validate_scene_data :: "real \<Rightarrow> scene list \<Rightarrow> error + unit" where
  "validate_scene_data default_tolerance scenes =
     validate_scene_data_from default_tolerance 0 scenes"

subsection \<open>\<open>validate_scene_continuity\<close>\<close>

text \<open>The body of the loop over adjacent pairs; the state is the two lists built so far.\<close>

definition continuity_step ::
  "real \<Rightarrow> scene list \<Rightarrow> nat \<Rightarrow> gap list \<times> overlap list \<Rightarrow> error + gap list \<times> overlap list" where
  "continuity_step tolerance scenes i acc =
     (let current_scene = scenes ! i; next_scene = scenes ! (i + 1) in
      bind_err (getitem next_scene ''start_time'') (\<lambda>ns.
      bind_err (getitem current_scene ''end_time'') (\<lambda>ce.
        let gap_duration = ns - ce in
        if gap_duration > tolerance then
          Inr (fst acc @ [\<lparr>after_scene = i, gap_start = ce, gap_end = ns,
                           gap_duration = gap_duration\<rparr>], snd acc)
        else if gap_duration < - tolerance then
          Inr (fst acc, snd acc @ [\<lparr>scene1 = i, scene2 = i + 1, overlap_start = ns,
                                     overlap_end = ce,
                                     overlap_duration = \<bar>gap_duration\<bar>\<rparr>])
        else Inr acc)))"

definition validate_scene_continuity ::
  "real \<Rightarrow> scene list \<Rightarrow> real option \<Rightarrow> error + report" where
  "validate_scene_continuity default_tolerance scenes tolerance_arg =
     (let tolerance = (case tolerance_arg of None \<Rightarrow> default_tolerance | Some t \<Rightarrow> t) in
      bind_err (validate_scene_data default_tolerance scenes) (\<lambda>_.
        if scenes = [] then
          Inr \<lparr>is_valid = True, gaps = [], overlaps = [], total_duration = 0,
               message = No_scenes_to_validate\<rparr>
        else if length scenes = 1 then
          bind_err (getitem (scenes ! 0) ''duration'') (\<lambda>du.
            Inr \<lparr>is_valid = True, gaps = [], overlaps = [], total_duration = du,
                 message = Single_scene\<rparr>)
        else
          bind_err (for_each [0..<length scenes - 1] (continuity_step tolerance scenes) ([], []))
            (\<lambda>(gs, os).
              bind_err (getitem (last scenes) ''end_time'') (\<lambda>le.
              bind_err (getitem (scenes ! 0) ''start_time'') (\<lambda>fs.
                let valid = (length gs = 0 \<and> length os = 0) in
                Inr \<lparr>is_valid = valid, gaps = gs, overlaps = os, total_duration = le - fs,
                     message = (if valid then Valid_continuity
                                else Issues_detected (length gs) (length os))\<rparr>)))))"


section \<open>The operations on the heap\<close>

text \<open>
  Whether an operation mutates its argument depends on which objects are shared, so this
  section models the Python heap: a list object holds the addresses of its scene dicts,
  and a dict object holds the fields. Allocation takes the next free address. A program
  takes the heap and returns its result, or the exception it raised, with the heap it
  left behind.
\<close>

type_synonym addr = nat

record heap =
  dict_at :: "addr \<Rightarrow> scene"
  list_at :: "addr \<Rightarrow> addr list"
  next_dict :: addr
  next_list :: addr

type_synonym 'a prog = "heap \<Rightarrow> (error + 'a) \<times> heap"

definition ret :: "'a \<Rightarrow> 'a prog" where
  "ret x h = (Inr x, h)"

definition throw :: "error \<Rightarrow> 'a prog" where
  "throw e h = (Inl e, h)"

definition seq :: "'a prog \<Rightarrow> ('a \<Rightarrow> 'b prog) \<Rightarrow> 'b prog" where
  "seq m f h = (case m h of (Inl e, h') \<Rightarrow> (Inl e, h') | (Inr x, h') \<Rightarrow> f x h')"

text \<open>
  \<open>len(l)\<close>, \<open>l[i]\<close>, the items a \<open>for\<close> loop over \<open>l\<close> visits, \<open>d[k]\<close>, \<open>d[k] = v\<close> and
  the contents of \<open>d\<close>, on the objects at the given addresses.
\<close>

definition list_len :: "addr \<Rightarrow> nat prog" where
  "list_len l h = (Inr (length (list_at h l)), h)"

definition list_item :: "addr \<Rightarrow> nat \<Rightarrow> addr prog" where
  "list_item l i h =
     (if i < length (list_at h l) then Inr (list_at h l ! i) else Inl IndexError, h)"

definition list_items :: "addr \<Rightarrow> addr list prog" where
  "list_items l h = (Inr (list_at h l), h)"

definition get_dict :: "addr \<Rightarrow> scene prog" where
  "get_dict a h = (Inr (dict_at h a), h)"

definition get_field :: "addr \<Rightarrow> string \<Rightarrow> real prog" where
  "get_field a k h = (getitem (dict_at h a) k, h)"

definition set_field :: "addr \<Rightarrow> string \<Rightarrow> real \<Rightarrow> unit prog" where
  "set_field a k v h = (Inr (), h\<lparr>dict_at := (dict_at h)(a := (dict_at h a)(k \<mapsto> v))\<rparr>)"

definition new_dict :: "scene \<Rightarrow> addr prog" where
  "new_dict d h =
     (Inr (next_dict h),
      h\<lparr>dict_at := (dict_at h)(next_dict h := d), next_dict := Suc (next_dict h)\<rparr>)"

definition new_list :: "addr list \<Rightarrow> addr prog" where
  "new_list items h =
     (Inr (next_list h),
      h\<lparr>list_at := (list_at h)(next_list h := items), next_list := Suc (next_list h)\<rparr>)"

text \<open>A \<open>for\<close> loop with its local variables as the state \<open>s\<close>.\<close>

fun loop :: "'x list \<Rightarrow> ('x \<Rightarrow> 's \<Rightarrow> 's prog) \<Rightarrow> 's \<Rightarrow> 's prog" where
  "loop [] body s = ret s"
| "loop (x # xs) body s = seq (body x s) (loop xs body)"

subsection \<open>\<open>copy.deepcopy\<close> of a list of dicts\<close>

text \<open>
  \<open>deepcopy\<close> copies every dict once: its memo maps the address of a dict already copied
  to the address of the copy, so a dict that occurs twice in the list occurs twice, as
  one object, in the copy. The floats in a dict are immutable and are not copied.
\<close>

definition deepcopy_dict ::
  "addr \<Rightarrow> addr list \<times> (addr \<rightharpoonup> addr) \<Rightarrow> (addr list \<times> (addr \<rightharpoonup> addr)) prog" where
  "deepcopy_dict e acc =
     (case acc of (items, memo) \<Rightarrow>
        (case memo e of
           Some e' \<Rightarrow> ret (items @ [e'], memo)
         | None \<Rightarrow>
             seq (get_dict e) (\<lambda>d.
             seq (new_dict d) (\<lambda>e'.
               ret (items @ [e'], memo(e \<mapsto> e'))))))"

definition deepcopy :: "addr \<Rightarrow> addr prog" where
  "deepcopy l =
     seq (list_items l) (\<lambda>es.
     seq (loop es deepcopy_dict ([], Map.empty)) (\<lambda>(items, memo).
       new_list items))"

subsection \<open>The repair operations\<close>

definition trim_step :: "addr \<Rightarrow> nat \<Rightarrow> unit \<Rightarrow> unit prog" where
  "trim_step fixed_scenes i _ =
     seq (list_item fixed_scenes i) (\<lambda>current_scene.
     seq (list_item fixed_scenes (i + 1)) (\<lambda>next_scene.
     seq (get_field current_scene ''end_time'') (\<lambda>ce.
     seq (get_field next_scene ''start_time'') (\<lambda>ns.
       if ce > ns then
         seq (get_field next_scene ''start_time'') (\<lambda>ns'.
         seq (set_field current_scene ''end_time'' ns') (\<lambda>_.
         seq (get_field current_scene ''end_time'') (\<lambda>ce'.
         seq (get_field current_scene ''start_time'') (\<lambda>cs.
         seq (set_field current_scene ''duration'' (ce' - cs)) (\<lambda>_.
         seq (get_field current_scene ''duration'') (\<lambda>du.
           if du \<le> 0 then
             seq (set_field current_scene ''duration'' (1 / 10)) (\<lambda>_.
             seq (get_field current_scene ''start_time'') (\<lambda>cs'.
             seq (get_field current_scene ''duration'') (\<lambda>du'.
               set_field current_scene ''end_time'' (cs' + du'))))
           else ret ()))))))
       else ret ()))))"

definition fix_overlaps_trim_previous :: "addr \<Rightarrow> addr prog" where
  "fix_overlaps_trim_previous scenes =
     seq (list_len scenes) (\<lambda>n.
       if n = 0 then ret scenes
       else
         seq (deepcopy scenes) (\<lambda>fixed_scenes.
         seq (list_len fixed_scenes) (\<lambda>n'.
         seq (loop [0..<n' - 1] (trim_step fixed_scenes) ()) (\<lambda>_.
           ret fixed_scenes))))"

definition shift_scene :: "addr \<Rightarrow> real \<Rightarrow> nat \<Rightarrow> unit \<Rightarrow> unit prog" where
  "shift_scene fixed_scenes shift_amount j _ =
     seq (list_item fixed_scenes j) (\<lambda>sc.
     seq (get_field sc ''start_time'') (\<lambda>st.
     seq (set_field sc ''start_time'' (st + shift_amount)) (\<lambda>_.
     seq (list_item fixed_scenes j) (\<lambda>sc'.
     seq (get_field sc' ''end_time'') (\<lambda>en.
       set_field sc' ''end_time'' (en + shift_amount))))))"

definition extend_step :: "real \<Rightarrow> real option \<Rightarrow> addr \<Rightarrow> nat \<Rightarrow> unit \<Rightarrow> unit prog" where
  "extend_step default_tolerance min_scene_duration fixed_scenes i _ =
     seq (list_item fixed_scenes i) (\<lambda>current_scene.
     seq (list_item fixed_scenes (i + 1)) (\<lambda>next_scene.
     seq (get_field next_scene ''start_time'') (\<lambda>ns.
     seq (get_field current_scene ''end_time'') (\<lambda>ce.
       if ns - ce > default_tolerance then
         seq (get_field next_scene ''start_time'') (\<lambda>ns'.
         seq (set_field current_scene ''end_time'' ns') (\<lambda>_.
         seq (get_field current_scene ''end_time'') (\<lambda>ce'.
         seq (get_field current_scene ''start_time'') (\<lambda>cs.
         seq (set_field current_scene ''duration'' (ce' - cs)) (\<lambda>_.
           case min_scene_duration of
             None \<Rightarrow> ret ()
           | Some m \<Rightarrow>
               if m = 0 then ret ()
               else
                 seq (get_field current_scene ''duration'') (\<lambda>du.
                   if du < m then
                     seq (get_field current_scene ''duration'') (\<lambda>du'.
                       let extension_needed = m - du' in
                       seq (get_field current_scene ''end_time'') (\<lambda>en.
                       seq (set_field current_scene ''end_time'' (en + extension_needed)) (\<lambda>_.
                       seq (set_field current_scene ''duration'' m) (\<lambda>_.
                       seq (list_len fixed_scenes) (\<lambda>n.
                         loop [i + 1..<n] (shift_scene fixed_scenes extension_needed) ())))))
                   else ret ()))))))
       else ret ()))))"

definition fix_gaps_extend_previous :: "real \<Rightarrow> addr \<Rightarrow> real option \<Rightarrow> addr prog" where
  "fix_gaps_extend_previous default_tolerance scenes min_scene_duration =
     seq (list_len scenes) (\<lambda>n.
       if n = 0 then ret scenes
       else
         seq (deepcopy scenes) (\<lambda>fixed_scenes.
         seq (list_len fixed_scenes) (\<lambda>n'.
         seq (loop [0..<n' - 1]
                (extend_step default_tolerance min_scene_duration fixed_scenes) ()) (\<lambda>_.
           ret fixed_scenes))))"

definition shift_step :: "real \<Rightarrow> addr \<Rightarrow> nat \<Rightarrow> unit \<Rightarrow> unit prog" where
  "shift_step default_tolerance fixed_scenes i _ =
     seq (list_item fixed_scenes i) (\<lambda>current_scene.
     seq (list_item fixed_scenes (i - 1)) (\<lambda>previous_scene.
     seq (get_field current_scene ''start_time'') (\<lambda>cs.
     seq (get_field previous_scene ''end_time'') (\<lambda>pe.
       let gap_duration = cs - pe in
       if gap_duration > default_tolerance then
         seq (get_field current_scene ''start_time'') (\<lambda>cs'.
         seq (set_field current_scene ''start_time'' (cs' - gap_duration)) (\<lambda>_.
         seq (get_field current_scene ''end_time'') (\<lambda>ce.
           set_field current_scene ''end_time'' (ce - gap_duration))))
       else ret ()))))"

definition fix_gaps_shift_following :: "real \<Rightarrow> addr \<Rightarrow> addr prog" where
  "fix_gaps_shift_following default_tolerance scenes =
     seq (list_len scenes) (\<lambda>n.
       if n = 0 then ret scenes
       else
         seq (deepcopy scenes) (\<lambda>fixed_scenes.
         seq (list_len fixed_scenes) (\<lambda>n'.
         seq (loop [1..<n'] (shift_step default_tolerance fixed_scenes) ()) (\<lambda>_.
           ret fixed_scenes))))"

text \<open>Validation only reads: it is the validation of the values found on the heap.\<close>

definition validate_scene_continuity_at :: "real \<Rightarrow> addr \<Rightarrow> real option \<Rightarrow> report prog" where
  "validate_scene_continuity_at default_tolerance scenes tolerance_arg h =
     (validate_scene_continuity default_tolerance (map (dict_at h) (list_at h scenes))
        tolerance_arg, h)"

definition fix_all_timing_issues :: "real \<Rightarrow> addr \<Rightarrow> real option \<Rightarrow> addr prog" where
  "fix_all_timing_issues default_tolerance scenes min_scene_duration =
     seq (list_len scenes) (\<lambda>n.
       if n = 0 then ret scenes
       else
         seq (fix_overlaps_trim_previous scenes) (\<lambda>fixed1.
         seq (fix_gaps_extend_previous default_tolerance fixed1 min_scene_duration) (\<lambda>fixed2.
         seq (validate_scene_continuity_at default_tolerance fixed2 None) (\<lambda>validation.
           if \<not> is_valid validation then
             seq (fix_gaps_shift_following default_tolerance scenes) (\<lambda>fixed3.
               fix_overlaps_trim_previous fixed3)
           else ret fixed2))))"

definition rescale_step :: "real \<Rightarrow> addr \<Rightarrow> real \<Rightarrow> real prog" where
  "rescale_step adjustment_factor scene cumulative_time =
     seq (set_field scene ''start_time'' cumulative_time) (\<lambda>_.
     seq (get_field scene ''duration'') (\<lambda>du.
     seq (set_field scene ''duration'' (du * adjustment_factor)) (\<lambda>_.
     seq (get_field scene ''start_time'') (\<lambda>st.
     seq (get_field scene ''duration'') (\<lambda>du'.
     seq (set_field scene ''end_time'' (st + du')) (\<lambda>_.
       get_field scene ''end_time''))))))"

definition enforce_total_duration :: "real \<Rightarrow> addr \<Rightarrow> real \<Rightarrow> addr prog" where
  "enforce_total_duration default_tolerance scenes target_duration =
     seq (list_len scenes) (\<lambda>n.
       if n = 0 then ret scenes
       else
         seq (deepcopy scenes) (\<lambda>fixed_scenes.
         seq (list_items fixed_scenes) (\<lambda>items.
         seq (loop items
                (\<lambda>scene total. seq (get_field scene ''duration'') (\<lambda>du. ret (total + du))) 0)
           (\<lambda>current_total.
             if \<bar>current_total - target_duration\<bar> < default_tolerance then ret fixed_scenes
             else if current_total = 0 then throw ZeroDivisionError
             else
               let adjustment_factor = target_duration / current_total in
               seq (list_items fixed_scenes) (\<lambda>items'.
               seq (loop items' (rescale_step adjustment_factor) 0) (\<lambda>actual_total.
                 if \<bar>actual_total - target_duration\<bar> > default_tolerance then
                   seq (list_len fixed_scenes) (\<lambda>n'.
                   seq (list_item fixed_scenes (n' - 1)) (\<lambda>last_scene.
                     let adjustment = target_duration - actual_total in
                     seq (get_field last_scene ''duration'') (\<lambda>du.
                     seq (set_field last_scene ''duration'' (du + adjustment)) (\<lambda>_.
                     seq (get_field last_scene ''end_time'') (\<lambda>en.
                     seq (set_field last_scene ''end_time'' (en + adjustment)) (\<lambda>_.
                       ret fixed_scenes))))))
                 else ret fixed_scenes))))))"


section \<open>The properties, as the specification words them\<close>

subsection \<open>Structural invariants of a scene\<close>

text \<open>
  A scene is structurally valid when it has the three fields, \<open>end_time > start_time\<close>,
  \<open>duration\<close> equals \<open>end_time - start_time\<close> within the tolerance, \<open>start_time \<ge> 0\<close> and
  \<open>duration > 0\<close>.
\<close>

definition structurally_valid :: "real \<Rightarrow> scene \<Rightarrow> bool" where
  "structurally_valid eps s =
     (case (s ''start_time'', s ''end_time'', s ''duration'') of
        (Some st, Some en, Some du) \<Rightarrow>
          en > st \<and> \<bar>du - (en - st)\<bar> \<le> eps \<and> 0 \<le> st \<and> 0 < du
      | _ \<Rightarrow> False)"

text \<open>
  What a \<open>ValueError\<close> message says: the scene index it starts with, and the field names
  that occur in its text.
\<close>

fun message_scene :: "message \<Rightarrow> nat option" where
  "message_scene (Scene_missing_field i f) = Some i"
| "message_scene (Scene_end_not_after_start i en st) = Some i"
| "message_scene (Scene_duration_mismatch i c du) = Some i"
| "message_scene (Scene_negative_start_or_duration i) = Some i"
| "message_scene Audio_duration_not_positive = None"
| "message_scene Scene_count_not_positive = None"

fun message_fields :: "message \<Rightarrow> string list" where
  "message_fields (Scene_missing_field i f) = [f]"
| "message_fields (Scene_end_not_after_start i en st) = [''end_time'', ''start_time'']"
| "message_fields (Scene_duration_mismatch i c du) = [''duration'']"
| "message_fields (Scene_negative_start_or_duration i) = [''start_time'', ''duration'']"
| "message_fields Audio_duration_not_positive = []"
| "message_fields Scene_count_not_positive = []"

text \<open>
  \<open>violation eps s m\<close>: the scene \<open>s\<close> really has the defect that the message \<open>m\<close> reports.
  \<open>offending eps s f\<close>: the field \<open>f\<close> of \<open>s\<close> is missing or takes part in an invariant
  that \<open>s\<close> breaks.
\<close>

fun violation :: "real \<Rightarrow> scene \<Rightarrow> message \<Rightarrow> bool" where
  "violation eps s (Scene_missing_field i f) = (f \<in> set required_fields \<and> s f = None)"
| "violation eps s (Scene_end_not_after_start i en st) =
     (s ''end_time'' = Some en \<and> s ''start_time'' = Some st \<and> en \<le> st)"
| "violation eps s (Scene_duration_mismatch i c du) =
     (case (s ''start_time'', s ''end_time'') of
        (Some st, Some en) \<Rightarrow> c = en - st \<and> s ''duration'' = Some du \<and> \<bar>du - (en - st)\<bar> > eps
      | _ \<Rightarrow> False)"
| "violation eps s (Scene_negative_start_or_duration i) =
     (case (s ''start_time'', s ''duration'') of
        (Some st, Some du) \<Rightarrow> st < 0 \<or> du \<le> 0
      | _ \<Rightarrow> False)"
| "violation eps s Audio_duration_not_positive = False"
| "violation eps s Scene_count_not_positive = False"

definition offending :: "real \<Rightarrow> scene \<Rightarrow> string \<Rightarrow> bool" where
  "offending eps s f =
     (f \<in> set required_fields \<and>
      (s f = None \<or>
       (f \<noteq> ''duration'' \<and>
          (case (s ''start_time'', s ''end_time'') of
             (Some st, Some en) \<Rightarrow> en \<le> st | _ \<Rightarrow> False)) \<or>
       (f = ''duration'' \<and>
          (case (s ''start_time'', s ''end_time'', s ''duration'') of
             (Some st, Some en, Some du) \<Rightarrow> \<bar>du - (en - st)\<bar> > eps | _ \<Rightarrow> False)) \<or>
       (f = ''start_time'' \<and> (case s ''start_time'' of Some st \<Rightarrow> st < 0 | None \<Rightarrow> False)) \<or>
       (f = ''duration'' \<and> (case s ''duration'' of Some du \<Rightarrow> du \<le> 0 | None \<Rightarrow> False))))"

subsection \<open>Gaps and overlaps between adjacent scenes\<close>

text \<open>Field reads for scenes known to have the field.\<close>

definition start_of :: "scene \<Rightarrow> real" where
  "start_of s = the (s ''start_time'')"

definition end_of :: "scene \<Rightarrow> real" where
  "end_of s = the (s ''end_time'')"

definition duration_of :: "scene \<Rightarrow> real" where
  "duration_of s = the (s ''duration'')"

text \<open>
  The difference \<open>next.start_time - current.end_time\<close> of the pair \<open>(i, i + 1)\<close>, and the
  records reported for it.
\<close>

definition gap_between :: "scene list \<Rightarrow> nat \<Rightarrow> real" where
  "gap_between scenes i = start_of (scenes ! (i + 1)) - end_of (scenes ! i)"

definition gap_record :: "scene list \<Rightarrow> nat \<Rightarrow> gap" where
  "gap_record scenes i =
     \<lparr>after_scene = i, gap_start = end_of (scenes ! i), gap_end = start_of (scenes ! (i + 1)),
      gap_duration = gap_between scenes i\<rparr>"

definition overlap_record :: "scene list \<Rightarrow> nat \<Rightarrow> overlap" where
  "overlap_record scenes i =
     \<lparr>scene1 = i, scene2 = i + 1, overlap_start = start_of (scenes ! (i + 1)),
      overlap_end = end_of (scenes ! i), overlap_duration = \<bar>gap_between scenes i\<bar>\<rparr>"

text \<open>The tolerance a call works with: the argument, or the instance's default.\<close>

definition tolerance_used :: "real \<Rightarrow> real option \<Rightarrow> real" where
  "tolerance_used default_tolerance tolerance_arg =
     (case tolerance_arg of None \<Rightarrow> default_tolerance | Some t \<Rightarrow> t)"

subsection \<open>Example timelines\<close>

definition mk_scene :: "real \<Rightarrow> real \<Rightarrow> real \<Rightarrow> scene" where
  "mk_scene st en du = [''start_time'' \<mapsto> st, ''end_time'' \<mapsto> en, ''duration'' \<mapsto> du]"

definition example_gaps :: "scene list" where
  "example_gaps = [mk_scene 0 10 10, mk_scene 12 27 15, mk_scene 30 45 15]"

text \<open>A scene that has a \<open>start_time\<close> and an \<open>end_time\<close>.\<close>

definition has_times :: "scene \<Rightarrow> bool" where
  "has_times s \<longleftrightarrow> s ''start_time'' \<noteq> None \<and> s ''end_time'' \<noteq> None"

text \<open>The three timing fields of a scene, as read from the dict.\<close>

definition timing :: "scene \<Rightarrow> real option \<times> real option \<times> real option" where
  "timing s = (s ''start_time'', s ''end_time'', s ''duration'')"

text \<open>
  The overlap example with the start times \<open>[0, 12, 23]\<close>, and the timeline of the
  validator's own test, whose second scene starts at \<open>10\<close>.
\<close>

definition example_overlaps_claimed :: "scene list" where
  "example_overlaps_claimed = [mk_scene 0 12 12, mk_scene 12 25 15, mk_scene 23 38 15]"

definition example_overlaps :: "scene list" where
  "example_overlaps = [mk_scene 0 12 12, mk_scene 10 25 15, mk_scene 23 38 15]"

text \<open>
  \<open>trimmed_from xs ys\<close>: \<open>ys\<close> is \<open>xs\<close> up to the \<open>end_time\<close> and \<open>duration\<close> fields of
  the scenes before the last one.
\<close>

definition trimmed_from :: "scene list \<Rightarrow> scene list \<Rightarrow> bool" where
  "trimmed_from xs ys \<longleftrightarrow>
     length ys = length xs \<and>
     (\<forall>i<length xs. \<forall>k. k \<noteq> ''end_time'' \<and> k \<noteq> ''duration'' \<longrightarrow> (ys ! i) k = (xs ! i) k) \<and>
     (xs \<noteq> [] \<longrightarrow> last ys = last xs)"

text \<open>
  \<open>chained c ys\<close>: the first scene of \<open>ys\<close> starts at \<open>c\<close>, every scene ends at its start
  plus its duration, and every scene starts where the one before it ends.
\<close>

fun chained :: "real \<Rightarrow> scene list \<Rightarrow> bool" where
  "chained c [] = True"
| "chained c (s # rest) =
     (case timing s of
        (Some st, Some en, Some du) \<Rightarrow> st = c \<and> en = st + du \<and> chained en rest
      | _ \<Rightarrow> False)"

text \<open>
  A timeline is contiguous when each scene starts at the end of the one before it, and
  its durations are consistent when each \<open>duration\<close> is \<open>end_time - start_time\<close>.
\<close>

definition contiguous :: "scene list \<Rightarrow> bool" where
  "contiguous ys \<longleftrightarrow>
     (\<forall>i. i + 1 < length ys \<longrightarrow>
        (case ((ys ! i) ''end_time'', (ys ! (i + 1)) ''start_time'') of
           (Some en, Some st) \<Rightarrow> st = en
         | _ \<Rightarrow> False))"

definition durations_consistent :: "scene list \<Rightarrow> bool" where
  "durations_consistent ys \<longleftrightarrow>
     (\<forall>i<length ys.
        case timing (ys ! i) of
          (Some st, Some en, Some du) \<Rightarrow> du = en - st
        | _ \<Rightarrow> False)"

text \<open>Two scenes that both start at 0, and a timeline with a gap and two overlaps.\<close>

definition example_same_start :: "scene list" where
  "example_same_start = [mk_scene 0 10 10, mk_scene 0 5 5]"

definition example_mixed :: "scene list" where
  "example_mixed =
     [mk_scene 0 12 12, mk_scene 10 20 10, mk_scene 25 35 10, mk_scene 33 43 10]"

section \<open>SceneTimingCalculator\<close>

text \<open>
  The calculator keeps two tracking lists, \<open>_deficits\<close> and \<open>_surpluses\<close>, whose entries
  are a scene index and an amount. The functions below take the tracking state and return
  it with their result, so that a state change made before an exception is kept.
  (\<open>_rebalancing_log\<close> is never written by these functions and is left out.)
\<close>

record tracking =
  deficits :: "(nat \<times> real) list"
  surpluses :: "(nat \<times> real) list"

text \<open>The body of the loop of \<open>_distribute_with_tracking\<close> for scene \<open>i\<close>.\<close>

definition tracking_step ::
  "real \<Rightarrow> bool \<Rightarrow> real list \<times> real \<times> tracking \<Rightarrow> nat \<Rightarrow> real list \<times> real \<times> tracking" where
  "tracking_step base_duration track_deficit_surplus acc i =
     (case acc of (durations, running_total, st) \<Rightarrow>
        let ideal_total = (real i + 1) * base_duration;
            scene_duration = ideal_total - running_total;
            st' =
              (if track_deficit_surplus then
                 (let deficit = max 0 (base_duration - scene_duration);
                      surplus = max 0 (scene_duration - base_duration);
                      st1 = (if deficit > 0
                             then st\<lparr>deficits := deficits st @ [(i, deficit)]\<rparr> else st)
                  in if surplus > 0
                     then st1\<lparr>surpluses := surpluses st1 @ [(i, surplus)]\<rparr> else st1)
               else st)
        in (durations @ [scene_duration], running_total + scene_duration, st'))"

definition distribute_with_tracking ::
  "tracking \<Rightarrow> real \<Rightarrow> int \<Rightarrow> bool \<Rightarrow> (error + real list) \<times> tracking" where
  "distribute_with_tracking st audio_duration scene_count track_deficit_surplus =
     (if scene_count = 0 then (Inl ZeroDivisionError, st)
      else
        let base_duration = audio_duration / real_of_int scene_count in
        case foldl (tracking_step base_duration track_deficit_surplus) ([], 0, st)
               [0..<nat scene_count] of
          (durations, running_total, st') \<Rightarrow>
            let actual_total = sum_list durations in
            if \<bar>actual_total - audio_duration\<bar> > 1 / 1000 then
              (let adjustment = audio_duration - actual_total in
               if durations = [] then (Inl IndexError, st')
               else (Inr (butlast durations @ [last durations + adjustment]), st'))
            else (Inr durations, st'))"

definition distribute_with_minimum_constraint ::
  "real \<Rightarrow> int \<Rightarrow> real \<Rightarrow> error + real list" where
  "distribute_with_minimum_constraint audio_duration scene_count min_duration =
     (let durations = replicate (nat scene_count) min_duration;
          total_min = sum_list durations in
      if total_min > audio_duration then Inr durations
      else
        let remaining = audio_duration - total_min in
        if scene_count = 0 then Inl ZeroDivisionError
        else
          let bonus_per_scene = remaining / real_of_int scene_count in
          Inr (map (\<lambda>duration. duration + bonus_per_scene) durations))"

text \<open>
  The loop that appends the scenes for the remainder: at most \<open>additional_scenes\<close>
  rounds, left early when nothing remains.
\<close>

fun append_remaining :: "nat \<Rightarrow> real \<Rightarrow> real \<Rightarrow> real list \<Rightarrow> real list" where
  "append_remaining 0 remaining max_duration durations = durations"
| "append_remaining (Suc k) remaining max_duration durations =
     (let scene_duration = min remaining max_duration;
          durations' = durations @ [scene_duration];
          remaining' = remaining - scene_duration in
      if remaining' \<le> 0 then durations'
      else append_remaining k remaining' max_duration durations')"

definition distribute_with_maximum_constraint ::
  "tracking \<Rightarrow> real \<Rightarrow> int \<Rightarrow> real \<Rightarrow> (error + real list) \<times> tracking" where
  "distribute_with_maximum_constraint st audio_duration scene_count max_duration =
     (if scene_count = 0 then (Inl ZeroDivisionError, st)
      else
        let base_duration = audio_duration / real_of_int scene_count in
        if base_duration \<le> max_duration
        then distribute_with_tracking st audio_duration scene_count False
        else
          let durations = replicate (nat scene_count) max_duration;
              total_capped = sum_list durations in
          if total_capped < audio_duration then
            (let remaining = audio_duration - total_capped in
             if max_duration = 0 then (Inl ZeroDivisionError, st)
             else
               let additional_scenes = \<lceil>remaining / max_duration\<rceil> in
               (Inr (append_remaining (nat additional_scenes) remaining max_duration durations),
                st))
          else (Inr durations, st))"

text \<open>
  \<open>if constraint and test(constraint)\<close>: the constraint applies when it is given, is not
  \<open>0.0\<close> (Python's truth test) and the test holds.
\<close>

definition applies :: "real option \<Rightarrow> (real \<Rightarrow> bool) \<Rightarrow> real option" where
  "applies constraint test =
     (case constraint of
        None \<Rightarrow> None
      | Some m \<Rightarrow> if m \<noteq> 0 \<and> test m then Some m else None)"

definition distribute_scene_durations ::
  "tracking \<Rightarrow> real \<Rightarrow> int \<Rightarrow> real option \<Rightarrow> real option \<Rightarrow> bool \<Rightarrow>
     (error + real list) \<times> tracking" where
  "distribute_scene_durations st audio_duration scene_count min_scene_duration
       max_scene_duration track_deficit_surplus =
     (if audio_duration \<le> 0 then (Inl (ValueError Audio_duration_not_positive), st)
      else if scene_count \<le> 0 then (Inl (ValueError Scene_count_not_positive), st)
      else
        let st1 = (if track_deficit_surplus then st\<lparr>deficits := [], surpluses := []\<rparr> else st);
            base_duration = audio_duration / real_of_int scene_count in
        case applies min_scene_duration (\<lambda>m. base_duration < m) of
          Some m \<Rightarrow>
            (distribute_with_minimum_constraint audio_duration \<lceil>audio_duration / m\<rceil> m, st1)
        | None \<Rightarrow>
            (case applies max_scene_duration (\<lambda>m. base_duration > m) of
               Some m \<Rightarrow>
                 distribute_with_maximum_constraint st1 audio_duration \<lceil>audio_duration / m\<rceil> m
             | None \<Rightarrow>
                 distribute_with_tracking st1 audio_duration scene_count track_deficit_surplus))"

section \<open>AudioMasterSync\<close>

text \<open>
  The video clip is an object of the media library. \<open>enforce_audio_priority\<close> only calls
  its \<open>set_duration\<close> method, which is a parameter here; \<open>visual_preference_duration\<close> is
  an optional float.
\<close>

definition enforce_audio_priority ::
  "('clip \<Rightarrow> real \<Rightarrow> 'clip) \<Rightarrow> 'clip \<Rightarrow> real \<Rightarrow> real option \<Rightarrow> 'clip" where
  "enforce_audio_priority set_duration video_clip audio_duration visual_preference_duration =
     set_duration video_clip audio_duration"

text \<open>
  Modelled from the spec: the clip-like object, which is not code of this repository. It
  exposes a readable \<open>duration\<close> and a set-exact-duration operation that returns the clip
  with that duration.
\<close>

record clip =
  duration :: real

definition set_duration :: "clip \<Rightarrow> real \<Rightarrow> clip" where
  "set_duration c d = c\<lparr>duration := d\<rparr>"
text \<open>
  \<open>frame h0 h\<close>: every object allocated in \<open>h0\<close> is in \<open>h\<close> what it was in \<open>h0\<close>, and nothing
  has been deallocated. \<open>copy_inv h0 fs items h\<close>: moreover the list at \<open>fs\<close> holds \<open>items\<close>,
  which are all addresses that were free in \<open>h0\<close>.
\<close>

definition frame :: "heap \<Rightarrow> heap \<Rightarrow> bool" where
  "frame h0 h \<longleftrightarrow>
     next_dict h0 \<le> next_dict h \<and> next_list h0 \<le> next_list h \<and>
     (\<forall>a<next_dict h0. dict_at h a = dict_at h0 a) \<and>
     (\<forall>l<next_list h0. list_at h l = list_at h0 l)"

definition copy_inv :: "heap \<Rightarrow> addr \<Rightarrow> addr list \<Rightarrow> heap \<Rightarrow> bool" where
  "copy_inv h0 fs items h \<longleftrightarrow>
     frame h0 h \<and> list_at h fs = items \<and> (\<forall>e\<in>set items. next_dict h0 \<le> e)"

definition preserves :: "(heap \<Rightarrow> bool) \<Rightarrow> 'a prog \<Rightarrow> bool" where
  "preserves I m \<longleftrightarrow> (\<forall>h. I h \<longrightarrow> I (snd (m h)))"

definition returns_only :: "'a \<Rightarrow> 'a prog \<Rightarrow> bool" where
  "returns_only x m \<longleftrightarrow> (\<forall>h y. fst (m h) = Inr y \<longrightarrow> y = x)"

text \<open>
  \<open>fresh_copy h0 n a fixed h\<close>: the list returned for the argument \<open>a\<close> of length \<open>n\<close> has
  length \<open>n\<close>; it is the argument itself when \<open>n = 0\<close>, and otherwise a list object that was
  not allocated in \<open>h0\<close>, holding dicts that were not allocated in \<open>h0\<close>.
\<close>

definition fresh_copy :: "heap \<Rightarrow> nat \<Rightarrow> addr \<Rightarrow> addr \<Rightarrow> heap \<Rightarrow> bool" where
  "fresh_copy h0 n a fixed h \<longleftrightarrow>
     length (list_at h fixed) = n \<and>
     (if n = 0 then fixed = a
      else next_list h0 \<le> fixed \<and> (\<forall>e\<in>set (list_at h fixed). next_dict h0 \<le> e))"

text \<open>
  \<open>copied h0 n a res\<close>: the outcome \<open>res\<close> of an operation on the list \<open>a\<close> of length \<open>n\<close>
  leaves the objects of \<open>h0\<close> as they were and, if it is a list, that list is a fresh copy.
\<close>

definition copied :: "heap \<Rightarrow> nat \<Rightarrow> addr \<Rightarrow> (error + addr) \<times> heap \<Rightarrow> bool" where
  "copied h0 n a res \<longleftrightarrow>
     frame h0 (snd res) \<and>
     (\<forall>fixed. fst res = Inr fixed \<longrightarrow> fresh_copy h0 n a fixed (snd res))"

text \<open>The five operations of the claim, and the argument as the caller sees it afterwards.\<close>

datatype operation =
    Extend_previous "real option"
  | Shift_following
  | Trim_previous
  | Fix_all "real option"
  | Enforce_total real

fun run_operation :: "real \<Rightarrow> operation \<Rightarrow> addr \<Rightarrow> addr prog" where
  "run_operation d (Extend_previous m) a = fix_gaps_extend_previous d a m"
| "run_operation d Shift_following a = fix_gaps_shift_following d a"
| "run_operation d Trim_previous a = fix_overlaps_trim_previous a"
| "run_operation d (Fix_all m) a = fix_all_timing_issues d a m"
| "run_operation d (Enforce_total t) a = enforce_total_duration d a t"

definition input_unchanged :: "heap \<Rightarrow> addr \<Rightarrow> heap \<Rightarrow> bool" where
  "input_unchanged h a h' \<longleftrightarrow>
     list_at h' a = list_at h a \<and> (\<forall>e\<in>set (list_at h a). dict_at h' e = dict_at h e)"

text \<open>
  A heap with the empty list at address 0, and a heap with the timeline of the overlap
  example at address 0.
\<close>

definition empty_timeline_heap :: heap where
  "empty_timeline_heap =
     \<lparr>dict_at = (\<lambda>_. Map.empty), list_at = (\<lambda>_. []), next_dict = 0, next_list = 1\<rparr>"

definition example_heap :: heap where
  "example_heap =
     \<lparr>dict_at = (\<lambda>a. if a < 3 then example_overlaps ! a else Map.empty),
      list_at = (\<lambda>l. if l = 0 then [0, 1, 2] else []), next_dict = 3, next_list = 1\<rparr>"



text \<open>The timing fields of the scenes of the list at an address.\<close>

definition timings_at :: "heap \<Rightarrow> addr \<Rightarrow> (real option \<times> real option \<times> real option) list" where
  "timings_at h l = map (\<lambda>e. timing (dict_at h e)) (list_at h l)"

text \<open>A heap whose list holds the same dict object twice.\<close>

definition shared_heap :: heap where
  "shared_heap =
     \<lparr>dict_at = (\<lambda>a. if a = 0 then mk_scene 0 10 10 else Map.empty),
      list_at = (\<lambda>l. if l = 0 then [0, 0] else []), next_dict = 1, next_list = 1\<rparr>"

text \<open>The timeline of scene values that the list at an address shows.\<close>

definition scenes_at :: "heap \<Rightarrow> addr \<Rightarrow> scene list" where
  "scenes_at h l = map (dict_at h) (list_at h l)"

text \<open>\<open>separate h l\<close>: the list at \<open>l\<close> is allocated and holds distinct, allocated dicts.\<close>

definition separate :: "heap \<Rightarrow> addr \<Rightarrow> bool" where
  "separate h l \<longleftrightarrow>
     l < next_list h \<and> distinct (list_at h l) \<and> (\<forall>e\<in>set (list_at h l). e < next_dict h)"

section \<open>Proofs\<close>

subsection \<open>Exceptions and field reads\<close>

lemma bind_err_Inr_iff:
  "bind_err m f = Inr y \<longleftrightarrow> (\<exists>x. m = Inr x \<and> f x = Inr y)"
  by (cases m) (simp_all add: bind_err_def)

lemma bind_err_Inl_iff:
  "bind_err m f = Inl e \<longleftrightarrow> m = Inl e \<or> (\<exists>x. m = Inr x \<and> f x = Inl e)"
  by (cases m) (simp_all add: bind_err_def)

lemma bind_err_simps [simp]:
  "bind_err (Inl e) f = Inl e"
  "bind_err (Inr x) f = f x"
  by (simp_all add: bind_err_def)

lemma getitem_simps [simp]:
  "s k = Some v \<Longrightarrow> getitem s k = Inr v"
  "s k = None \<Longrightarrow> getitem s k = Inl (KeyError k)"
  by (simp_all add: getitem_def)

subsection \<open>\<open>_validate_scene_data\<close> accepts exactly the structurally valid timelines\<close>

lemma check_scene_ok_iff:
  "check_scene d i s = Inr () \<longleftrightarrow> structurally_valid d s"
  by (cases "s ''start_time''"; cases "s ''end_time''"; cases "s ''duration''")
     (auto simp: check_scene_def structurally_valid_def required_fields_def Let_def abs_minus_commute)

lemma check_scene_cases:
  "check_scene d i s = Inr () \<or> (\<exists>m. check_scene d i s = Inl (ValueError m))"
  by (cases "s ''start_time''"; cases "s ''end_time''"; cases "s ''duration''")
     (auto simp: check_scene_def required_fields_def Let_def)

lemma vsd_from_ok_iff:
  "validate_scene_data_from d k scenes = Inr () \<longleftrightarrow>
     (\<forall>i<length scenes. structurally_valid d (scenes ! i))"
proof (induction scenes arbitrary: k)
  case Nil
  show ?case by simp
next
  case (Cons s rest)
  show ?case
  proof (cases "check_scene d k s")
    case (Inl e)
    then have "\<not> structurally_valid d s"
      using check_scene_ok_iff [of d k s] by simp
    then show ?thesis using Inl by auto
  next
    case (Inr u)
    then have "structurally_valid d s"
      using check_scene_ok_iff [of d k s] by simp
    then show ?thesis using Inr Cons.IH [of "Suc k"]
      by (auto simp: less_Suc_eq_0_disj)
  qed
qed

lemma validate_scene_data_ok_iff:
  "validate_scene_data d scenes = Inr () \<longleftrightarrow>
     (\<forall>i<length scenes. structurally_valid d (scenes ! i))"
  by (simp add: validate_scene_data_def vsd_from_ok_iff)

lemma check_scene_error:
  assumes "\<not> structurally_valid d s"
  shows "\<exists>m. check_scene d i s = Inl (ValueError m) \<and> message_scene m = Some i \<and> violation d s m"
  using assms
  by (cases "s ''start_time''"; cases "s ''end_time''"; cases "s ''duration''")
     (auto simp: check_scene_def structurally_valid_def required_fields_def Let_def abs_minus_commute)

lemma vsd_from_error:
  assumes "i < length scenes" "\<not> structurally_valid d (scenes ! i)"
    "\<forall>j<i. structurally_valid d (scenes ! j)"
  shows "\<exists>m. validate_scene_data_from d k scenes = Inl (ValueError m) \<and>
             message_scene m = Some (k + i) \<and> violation d (scenes ! i) m"
  using assms
proof (induction scenes arbitrary: k i)
  case Nil
  then show ?case by simp
next
  case (Cons s rest)
  show ?case
  proof (cases i)
    case 0
    then show ?thesis using Cons.prems check_scene_error [of d s k] by auto
  next
    case (Suc i')
    have ok: "check_scene d k s = Inr ()"
      using Cons.prems(3) Suc check_scene_ok_iff [of d k s] by auto
    have "\<forall>j<i'. structurally_valid d (rest ! j)"
      using Cons.prems(3) Suc by auto
    then obtain m where "validate_scene_data_from d (Suc k) rest = Inl (ValueError m)"
      "message_scene m = Some (Suc k + i')" "violation d (rest ! i') m"
      using Cons.IH [of i' "Suc k"] Cons.prems(1,2) Suc by auto
    then show ?thesis using ok Suc by auto
  qed
qed

lemma first_offender:
  assumes "\<exists>i<length scenes. \<not> structurally_valid d (scenes ! i)"
  obtains i where "i < length scenes" "\<not> structurally_valid d (scenes ! i)"
    "\<forall>j<i. structurally_valid d (scenes ! j)"
proof -
  let ?P = "\<lambda>i. i < length scenes \<and> \<not> structurally_valid d (scenes ! i)"
  from assms have ex: "\<exists>i. ?P i" by blast
  have "?P (LEAST i. ?P i)" using ex by (rule LeastI_ex)
  moreover have "\<forall>j<(LEAST i. ?P i). structurally_valid d (scenes ! j)"
    using not_less_Least [of _ ?P] calculation by (meson less_trans)
  ultimately show ?thesis using that by blast
qed

subsection \<open>\<open>validate_scene_continuity\<close> on a structurally valid timeline\<close>

lemma structurally_valid_fields:
  assumes "structurally_valid d s"
  shows "s ''start_time'' = Some (start_of s)" "s ''end_time'' = Some (end_of s)"
    "s ''duration'' = Some (duration_of s)"
  using assms
  by (auto simp: structurally_valid_def start_of_def end_of_def duration_of_def
        split: option.splits)

lemma continuity_step_valid:
  assumes "structurally_valid d (scenes ! i)" "structurally_valid d (scenes ! (i + 1))"
  shows "continuity_step tol scenes i acc =
     Inr (fst acc @ (if tol < gap_between scenes i then [gap_record scenes i] else []),
          snd acc @ (if \<not> tol < gap_between scenes i \<and> gap_between scenes i < - tol
                     then [overlap_record scenes i] else []))"
  using structurally_valid_fields [OF assms(1)] structurally_valid_fields [OF assms(2)]
  by (simp add: continuity_step_def Let_def gap_between_def gap_record_def overlap_record_def)

lemma continuity_loop:
  assumes "\<forall>i<length scenes. structurally_valid d (scenes ! i)"
    "\<forall>i\<in>set is. i + 1 < length scenes"
  shows "for_each is (continuity_step tol scenes) acc =
     Inr (fst acc @ map (gap_record scenes) (filter (\<lambda>i. tol < gap_between scenes i) is),
          snd acc @ map (overlap_record scenes)
             (filter (\<lambda>i. \<not> tol < gap_between scenes i \<and> gap_between scenes i < - tol) is))"
  using assms(2)
proof (induction "is" arbitrary: acc)
  case Nil
  show ?case by simp
next
  case (Cons i rest)
  have i: "i + 1 < length scenes" using Cons.prems by simp
  have step: "continuity_step tol scenes i acc =
     Inr (fst acc @ (if tol < gap_between scenes i then [gap_record scenes i] else []),
          snd acc @ (if \<not> tol < gap_between scenes i \<and> gap_between scenes i < - tol
                     then [overlap_record scenes i] else []))"
    using continuity_step_valid [of d scenes i tol acc] assms(1) i by simp
  have rest: "\<forall>i\<in>set rest. i + 1 < length scenes" using Cons.prems by simp
  show ?case
    by (simp add: step Cons.IH [OF rest])
qed

lemma validate_scene_continuity_valid:
  assumes "\<forall>i<length scenes. structurally_valid d (scenes ! i)"
  shows "\<exists>r. validate_scene_continuity d scenes tol = Inr r \<and>
     gaps r = map (gap_record scenes)
       (filter (\<lambda>i. tolerance_used d tol < gap_between scenes i) [0..<length scenes - 1]) \<and>
     overlaps r = map (overlap_record scenes)
       (filter (\<lambda>i. \<not> tolerance_used d tol < gap_between scenes i \<and>
                    gap_between scenes i < - tolerance_used d tol) [0..<length scenes - 1]) \<and>
     is_valid r = (gaps r = [] \<and> overlaps r = [])"
proof -
  have data: "validate_scene_data d scenes = Inr ()"
    using assms by (simp add: validate_scene_data_ok_iff)
  consider "scenes = []" | "length scenes = 1" | "2 \<le> length scenes"
    by (cases scenes) (auto simp: Suc_le_eq)
  then show ?thesis
  proof cases
    case 1
    then show ?thesis using data by (simp add: validate_scene_continuity_def)
  next
    case 2
    then have "structurally_valid d (scenes ! 0)" using assms by simp
    from structurally_valid_fields(3) [OF this] 2 show ?thesis
      by (simp add: validate_scene_continuity_def data)
  next
    case 3
    have ne1: "scenes \<noteq> []" using 3 by auto
    have ne2: "length scenes \<noteq> 1" using 3 by simp
    note ne = ne1 ne2
    have "0 < length scenes" using ne1 by simp
    then have "structurally_valid d (scenes ! 0)" using assms by blast
    note f = structurally_valid_fields(1) [OF this]
    have "structurally_valid d (last scenes)"
      using assms ne by (simp add: last_conv_nth)
    note l = structurally_valid_fields(2) [OF this]
    have idx: "\<forall>i\<in>set [0..<length scenes - 1]. i + 1 < length scenes" by auto
    have loop: "for_each [0..<length scenes - 1]
        (continuity_step (tolerance_used d tol) scenes) ([], []) =
       Inr (map (gap_record scenes)
              (filter (\<lambda>i. tolerance_used d tol < gap_between scenes i) [0..<length scenes - 1]),
            map (overlap_record scenes)
              (filter (\<lambda>i. \<not> tolerance_used d tol < gap_between scenes i \<and>
                    gap_between scenes i < - tolerance_used d tol) [0..<length scenes - 1]))"
      using continuity_loop [OF assms idx, of "tolerance_used d tol" "([], [])"] by simp
    have unf: "validate_scene_continuity d scenes tol =
       bind_err (for_each [0..<length scenes - 1]
          (continuity_step (tolerance_used d tol) scenes) ([], []))
            (\<lambda>(gs, os).
                let valid = (length gs = 0 \<and> length os = 0) in
                Inr \<lparr>is_valid = valid, gaps = gs, overlaps = os,
                     total_duration = end_of (last scenes) - start_of (scenes ! 0),
                     message = (if valid then Valid_continuity
                                else Issues_detected (length gs) (length os))\<rparr>)"
      unfolding validate_scene_continuity_def tolerance_used_def [symmetric] Let_def
      using ne data f l by simp
    show ?thesis
      unfolding unf loop by (simp add: Let_def)
  qed
qed

lemma validate_scene_continuity_invalid:
  assumes "validate_scene_data d scenes = Inl e"
  shows "validate_scene_continuity d scenes tol = Inl e"
  using assms by (simp add: validate_scene_continuity_def)

lemma violation_offending:
  assumes "violation d s m"
  shows "\<exists>f\<in>set (message_fields m). offending d s f"
  using assms
  by (cases m)
     (auto simp: offending_def required_fields_def split: option.splits)

lemma validate_scene_continuity_error:
  assumes "\<exists>i<length scenes. \<not> structurally_valid d (scenes ! i)"
  shows "\<exists>m i. validate_scene_continuity d scenes tol = Inl (ValueError m) \<and>
           message_scene m = Some i \<and> i < length scenes \<and>
           violation d (scenes ! i) m \<and>
           \<not> structurally_valid d (scenes ! i) \<and>
           (\<forall>j<i. structurally_valid d (scenes ! j))"
proof -
  obtain i where i: "i < length scenes" "\<not> structurally_valid d (scenes ! i)"
    "\<forall>j<i. structurally_valid d (scenes ! j)"
    using first_offender [OF assms] by blast
  obtain m where m: "validate_scene_data d scenes = Inl (ValueError m)"
    "message_scene m = Some i" "violation d (scenes ! i) m"
    using vsd_from_error [OF i, of 0] by (auto simp: validate_scene_data_def)
  show ?thesis
    using validate_scene_continuity_invalid [OF m(1)] m(2,3) i by blast
qed

text \<open>
  Claim C6. If some scene of the timeline breaks a structural invariant (a required field
  is missing, \<open>end_time \<le> start_time\<close>, the duration differs from \<open>end_time - start_time\<close>
  by more than the default tolerance, \<open>start_time < 0\<close> or \<open>duration \<le> 0\<close>), then
  \<open>validate_scene_continuity\<close> raises a \<open>ValueError\<close> and returns no report; its message
  carries the index of the first such scene, reports a defect this scene has and names a
  field that is missing or breaks an invariant. If no scene breaks an invariant, no error
  is raised and a report is returned.
\<close>

theorem structural_violation_raises:
  "((\<exists>i<length scenes. \<not> structurally_valid d (scenes ! i)) \<longrightarrow>
      (\<exists>m i. validate_scene_continuity d scenes tol = Inl (ValueError m) \<and>
         message_scene m = Some i \<and> i < length scenes \<and>
         \<not> structurally_valid d (scenes ! i) \<and>
         (\<forall>j<i. structurally_valid d (scenes ! j)) \<and>
         violation d (scenes ! i) m \<and>
         (\<exists>f\<in>set (message_fields m). offending d (scenes ! i) f))) \<and>
   ((\<forall>i<length scenes. structurally_valid d (scenes ! i)) \<longrightarrow>
      (\<exists>r. validate_scene_continuity d scenes tol = Inr r))"
proof (intro conjI impI)
  assume "\<exists>i<length scenes. \<not> structurally_valid d (scenes ! i)"
  from validate_scene_continuity_error [OF this, of tol]
  show "\<exists>m i. validate_scene_continuity d scenes tol = Inl (ValueError m) \<and>
         message_scene m = Some i \<and> i < length scenes \<and>
         \<not> structurally_valid d (scenes ! i) \<and>
         (\<forall>j<i. structurally_valid d (scenes ! j)) \<and>
         violation d (scenes ! i) m \<and>
         (\<exists>f\<in>set (message_fields m). offending d (scenes ! i) f)"
    using violation_offending by blast
next
  assume "\<forall>i<length scenes. structurally_valid d (scenes ! i)"
  from validate_scene_continuity_valid [OF this, of tol]
  show "\<exists>r. validate_scene_continuity d scenes tol = Inr r" by blast
qed


theorem structural_violation_raises_witness:
  "(\<exists>m. validate_scene_continuity (1 / 1000) [mk_scene 10 5 (- 5), mk_scene 5 15 8] None =
       Inl (ValueError m) \<and> message_scene m = Some 0) \<and>
   (\<exists>r. validate_scene_continuity (1 / 1000) [mk_scene 0 10 10, mk_scene 10 25 15] None = Inr r)"
proof -
  have bad: "\<exists>i<length [mk_scene 10 5 (- 5), mk_scene 5 15 8].
      \<not> structurally_valid (1 / 1000) ([mk_scene 10 5 (- 5), mk_scene 5 15 8] ! i)"
    by (rule exI [of _ 0]) (simp add: structurally_valid_def mk_scene_def)
  have good: "\<forall>i<length [mk_scene 0 10 10, mk_scene 10 25 15].
      structurally_valid (1 / 1000) ([mk_scene 0 10 10, mk_scene 10 25 15] ! i)"
    unfolding list_all_length [symmetric]
    by (simp add: structurally_valid_def mk_scene_def)
  have first: "\<not> structurally_valid (1 / 1000) ([mk_scene 10 5 (- 5), mk_scene 5 15 8] ! 0)"
    by (simp add: structurally_valid_def mk_scene_def)
  obtain m i where m:
    "validate_scene_continuity (1 / 1000) [mk_scene 10 5 (- 5), mk_scene 5 15 8] None =
       Inl (ValueError m)" "message_scene m = Some i"
    "\<forall>j<i. structurally_valid (1 / 1000) ([mk_scene 10 5 (- 5), mk_scene 5 15 8] ! j)"
    using structural_violation_raises
      [of "[mk_scene 10 5 (- 5), mk_scene 5 15 8]" "1 / 1000" None] bad by blast
  have "i = 0" using m(3) first by (cases i) auto
  then show ?thesis
    using m(1,2) structural_violation_raises
      [of "[mk_scene 0 10 10, mk_scene 10 25 15]" "1 / 1000" None] good by blast
qed

text \<open>The example timeline of claim C5 is structurally valid.\<close>

lemma example_gaps_valid:
  "\<forall>i<length example_gaps. structurally_valid (1 / 1000) (example_gaps ! i)"
  unfolding list_all_length [symmetric]
  by (simp add: example_gaps_def structurally_valid_def mk_scene_def)

text \<open>
  Claim C5. On a structurally valid timeline \<open>validate_scene_continuity\<close> returns a
  report whose gaps are the records of exactly the adjacent pairs with
  \<open>next.start_time - current.end_time > \<epsilon>\<close>, in order, and, for a tolerance \<open>\<epsilon> \<ge> 0\<close>,
  whose overlaps are the records of exactly the pairs where that difference is \<open>< - \<epsilon>\<close>.
  For the scenes \<open>[0,10]\<close>, \<open>[12,27]\<close>, \<open>[30,45]\<close> the gaps are \<open>{after_scene: 0,
  gap_duration: 2}\<close> and \<open>{after_scene: 1, gap_duration: 3}\<close> and there is no overlap.
\<close>

theorem gaps_and_overlaps_classified:
  assumes "\<forall>i<length scenes. structurally_valid d (scenes ! i)"
  shows "\<exists>r. validate_scene_continuity d scenes tol = Inr r \<and>
     gaps r = map (gap_record scenes)
       (filter (\<lambda>i. gap_between scenes i > tolerance_used d tol) [0..<length scenes - 1]) \<and>
     (0 \<le> tolerance_used d tol \<longrightarrow>
        overlaps r = map (overlap_record scenes)
          (filter (\<lambda>i. gap_between scenes i < - tolerance_used d tol) [0..<length scenes - 1]))"
proof -
  obtain r where r: "validate_scene_continuity d scenes tol = Inr r"
    "gaps r = map (gap_record scenes)
       (filter (\<lambda>i. tolerance_used d tol < gap_between scenes i) [0..<length scenes - 1])"
    "overlaps r = map (overlap_record scenes)
       (filter (\<lambda>i. \<not> tolerance_used d tol < gap_between scenes i \<and>
                    gap_between scenes i < - tolerance_used d tol) [0..<length scenes - 1])"
    using validate_scene_continuity_valid [OF assms, of tol] by blast
  have "0 \<le> tolerance_used d tol \<Longrightarrow>
     (\<lambda>i. \<not> tolerance_used d tol < gap_between scenes i \<and>
           gap_between scenes i < - tolerance_used d tol) =
     (\<lambda>i. gap_between scenes i < - tolerance_used d tol)"
    by (rule ext) auto
  with r show ?thesis by auto
qed

theorem gaps_and_overlaps_classified_witness:
  "\<exists>r. validate_scene_continuity (1 / 1000) example_gaps None = Inr r \<and>
     gaps r = [\<lparr>after_scene = 0, gap_start = 10, gap_end = 12, gap_duration = 2\<rparr>,
               \<lparr>after_scene = 1, gap_start = 27, gap_end = 30, gap_duration = 3\<rparr>] \<and>
     overlaps r = []"
proof -
  have g: "map (gap_record example_gaps)
       (filter (\<lambda>i. gap_between example_gaps i > tolerance_used (1 / 1000) None)
          [0..<length example_gaps - 1]) =
     [\<lparr>after_scene = 0, gap_start = 10, gap_end = 12, gap_duration = 2\<rparr>,
      \<lparr>after_scene = 1, gap_start = 27, gap_end = 30, gap_duration = 3\<rparr>]"
    by (simp add: example_gaps_def mk_scene_def gap_record_def gap_between_def start_of_def
          end_of_def tolerance_used_def upt_conv_Cons)
  have o: "map (overlap_record example_gaps)
       (filter (\<lambda>i. gap_between example_gaps i < - tolerance_used (1 / 1000) None)
          [0..<length example_gaps - 1]) = []"
    by (simp add: example_gaps_def mk_scene_def gap_between_def start_of_def
          end_of_def tolerance_used_def upt_conv_Cons)
  have t: "0 \<le> tolerance_used (1 / 1000) None" by (simp add: tolerance_used_def)
  show ?thesis
    using gaps_and_overlaps_classified [OF example_gaps_valid, of None] t
    unfolding g o by blast
qed

text \<open>
  Claim C9. The tolerance argument of a call has no part in the structural check: the
  call raises a given error with an explicit tolerance exactly when it raises it with
  none, and a scene whose duration differs from \<open>end_time - start_time\<close> by more than
  the instance's default tolerance makes the call raise whatever tolerance is passed.
\<close>

theorem structural_check_uses_default_tolerance:
  "(validate_scene_continuity d scenes (Some t) = Inl e \<longleftrightarrow>
      validate_scene_continuity d scenes None = Inl e) \<and>
   (i < length scenes \<and> (scenes ! i) ''start_time'' = Some st \<and>
    (scenes ! i) ''end_time'' = Some en \<and> (scenes ! i) ''duration'' = Some du \<and>
    \<bar>du - (en - st)\<bar> > d \<longrightarrow>
      (\<exists>m. validate_scene_continuity d scenes (Some t) = Inl (ValueError m)))"
proof (intro conjI impI)
  show "validate_scene_continuity d scenes (Some t) = Inl e \<longleftrightarrow>
      validate_scene_continuity d scenes None = Inl e"
  proof (cases "validate_scene_data d scenes")
    case (Inl e')
    then show ?thesis by (simp add: validate_scene_continuity_invalid)
  next
    case (Inr u)
    then have "\<forall>i<length scenes. structurally_valid d (scenes ! i)"
      using validate_scene_data_ok_iff [of d scenes] by simp
    from validate_scene_continuity_valid [OF this, of "Some t"]
      validate_scene_continuity_valid [OF this, of None]
    show ?thesis by auto
  qed
next
  assume a: "i < length scenes \<and> (scenes ! i) ''start_time'' = Some st \<and>
    (scenes ! i) ''end_time'' = Some en \<and> (scenes ! i) ''duration'' = Some du \<and>
    \<bar>du - (en - st)\<bar> > d"
  then have "\<not> structurally_valid d (scenes ! i)"
    by (simp add: structurally_valid_def)
  with a have "\<exists>i<length scenes. \<not> structurally_valid d (scenes ! i)" by blast
  from validate_scene_continuity_error [OF this, of "Some t"]
  show "\<exists>m. validate_scene_continuity d scenes (Some t) = Inl (ValueError m)" by blast
qed

theorem structural_check_uses_default_tolerance_witness:
  "\<exists>m. validate_scene_continuity (1 / 1000) [mk_scene 0 10 (1005 / 100)] (Some 1) =
     Inl (ValueError m)"
  using structural_check_uses_default_tolerance
    [where d = "1 / 1000" and scenes = "[mk_scene 0 10 (1005 / 100)]" and t = 1 and i = 0
       and st = 0 and en = 10 and du = "1005 / 100", THEN conjunct2]
  by (simp add: mk_scene_def)

subsection \<open>\<open>distribute_scene_durations\<close> without constraints\<close>

lemma tracking_loop:
  "\<exists>ds st'. foldl (tracking_step b track) ([], 0, st) [0..<k] = (ds, sum_list ds, st') \<and>
     length ds = k \<and> sum_list ds = real k * b \<and>
     (\<forall>i<k. ds ! i = (real i + 1) * b - sum_list (take i ds))"
proof (induction k)
  case 0
  show ?case by simp
next
  case (Suc k)
  then obtain ds st' where
    ih: "foldl (tracking_step b track) ([], 0, st) [0..<k] = (ds, sum_list ds, st')"
      "length ds = k" "sum_list ds = real k * b"
      "\<forall>i<k. ds ! i = (real i + 1) * b - sum_list (take i ds)"
    by blast
  let ?d = "(real k + 1) * b - sum_list ds"
  obtain st'' where
    step: "tracking_step b track (ds, sum_list ds, st') k = (ds @ [?d], sum_list ds + ?d, st'')"
    by (simp add: tracking_step_def Let_def)
  have f: "foldl (tracking_step b track) ([], 0, st) [0..<Suc k] =
      (ds @ [?d], sum_list (ds @ [?d]), st'')"
    using ih(1) step by simp
  have s: "sum_list (ds @ [?d]) = real (Suc k) * b" by simp
  have n: "(ds @ [?d]) ! i = (real i + 1) * b - sum_list (take i (ds @ [?d]))"
    if "i < Suc k" for i
  proof (cases "i < k")
    case True
    then show ?thesis using ih(2,4) by (simp add: nth_append)
  next
    case False
    then have "i = length ds" "k = length ds" using that ih(2) by simp_all
    then show ?thesis by simp
  qed
  show ?case using f s n ih(2) by (intro exI [of _ "ds @ [?d]"] exI [of _ st'']) simp
qed

text \<open>
  Claim C1. For \<open>total_duration > 0\<close> and \<open>scene_count > 0\<close> with no minimum and no
  maximum, \<open>distribute_scene_durations\<close> returns \<open>scene_count\<close> durations, the \<open>i\<close>-th of
  which is \<open>(i + 1) * total_duration / scene_count\<close> minus the sum of the durations before
  it, and their sum differs from \<open>total_duration\<close> by less than 0.001.
\<close>

theorem distribute_tracks_prefixes:
  assumes "0 < audio" "0 < n"
  shows "\<exists>ds st'. distribute_scene_durations st audio n None None track = (Inr ds, st') \<and>
     length ds = nat n \<and>
     (\<forall>i<nat n. ds ! i = (real i + 1) * (audio / real_of_int n) - sum_list (take i ds)) \<and>
     \<bar>sum_list ds - audio\<bar> < 1 / 1000"
proof -
  let ?st1 = "if track then st\<lparr>deficits := [], surpluses := []\<rparr> else st"
  let ?b = "audio / real_of_int n"
  obtain ds st' where
    l: "foldl (tracking_step ?b track) ([], 0, ?st1) [0..<nat n] = (ds, sum_list ds, st')"
      "length ds = nat n" "sum_list ds = real (nat n) * ?b"
      "\<forall>i<nat n. ds ! i = (real i + 1) * ?b - sum_list (take i ds)"
    using tracking_loop [of ?b track ?st1 "nat n"] by blast
  have sum: "sum_list ds = audio" using l(3) assms(2) by simp
  have "distribute_with_tracking ?st1 audio n track = (Inr ds, st')"
    using assms(2) l(1) sum by (simp add: distribute_with_tracking_def Let_def)
  then have "distribute_scene_durations st audio n None None track = (Inr ds, st')"
    using assms by (simp add: distribute_scene_durations_def applies_def Let_def)
  then show ?thesis using l(2,4) sum by simp
qed

theorem distribute_tracks_prefixes_witness:
  "\<exists>ds st'. distribute_scene_durations \<lparr>deficits = [], surpluses = []\<rparr> 10 3 None None False =
       (Inr ds, st') \<and> length ds = 3 \<and> \<bar>sum_list ds - 10\<bar> < 1 / 1000"
  using distribute_tracks_prefixes [of 10 3 "\<lparr>deficits = [], surpluses = []\<rparr>" False]
  by auto

subsection \<open>\<open>enforce_audio_priority\<close>\<close>

text \<open>
  Claim C8. For a clip whose \<open>set_duration\<close> sets the duration it is given,
  \<open>enforce_audio_priority\<close> returns the clip with duration exactly \<open>audio_duration\<close>, and
  two calls that differ only in \<open>visual_preference_duration\<close> return the same result.
\<close>

theorem audio_always_wins:
  "((\<forall>c d. get_duration (set_dur c d) = d) \<longrightarrow>
      get_duration (enforce_audio_priority set_dur video_clip audio_duration v) = audio_duration) \<and>
   enforce_audio_priority set_dur video_clip audio_duration v =
     enforce_audio_priority set_dur video_clip audio_duration v'"
  by (simp add: enforce_audio_priority_def)

theorem audio_always_wins_witness:
  "duration (enforce_audio_priority set_duration \<lparr>duration = 60\<rparr> (42123 / 1000) (Some 30)) =
     42123 / 1000 \<and>
   enforce_audio_priority set_duration \<lparr>duration = 60\<rparr> (42123 / 1000) (Some 30) =
     enforce_audio_priority set_duration \<lparr>duration = 60\<rparr> (42123 / 1000) None"
proof -
  have c: "\<forall>c d. duration (set_duration c d) = d" by (simp add: set_duration_def)
  show ?thesis
    using audio_always_wins
      [of duration set_duration "\<lparr>duration = 60\<rparr>" "42123 / 1000" "Some 30" None] c
    by blast
qed



subsection \<open>Rules for programs that keep an invariant\<close>

lemma preserves_ret: "preserves I (ret x)"
  by (simp add: preserves_def ret_def)

lemma preserves_throw: "preserves I (throw e)"
  by (simp add: preserves_def throw_def)

lemma preserves_seq:
  assumes "preserves I m" "\<And>x. preserves I (f x)"
  shows "preserves I (seq m f)"
  unfolding preserves_def
proof (intro allI impI)
  fix h assume I: "I h"
  obtain r h' where m: "m h = (r, h')" by (cases "m h")
  have I': "I h'" using assms(1) I m by (auto simp: preserves_def)
  show "I (snd (seq m f h))"
  proof (cases r)
    case (Inl e)
    then show ?thesis using m I' by (simp add: seq_def)
  next
    case (Inr x)
    then show ?thesis using m I' assms(2) [of x] by (simp add: seq_def preserves_def)
  qed
qed

lemma preserves_if:
  assumes "c \<Longrightarrow> preserves I m" "\<not> c \<Longrightarrow> preserves I m'"
  shows "preserves I (if c then m else m')"
  using assms by simp

lemma preserves_option:
  assumes "c = None \<Longrightarrow> preserves I m" "\<And>x. c = Some x \<Longrightarrow> preserves I (f x)"
  shows "preserves I (case c of None \<Rightarrow> m | Some x \<Rightarrow> f x)"
  using assms by (cases c) simp_all

lemma preserves_get: "preserves I (get_field a k)"
  by (simp add: preserves_def get_field_def)

lemma preserves_len: "preserves I (list_len l)"
  by (simp add: preserves_def list_len_def)

lemma preserves_set:
  assumes "next_dict h0 \<le> a"
  shows "preserves (copy_inv h0 fs items) (set_field a k v)"
  using assms by (simp add: preserves_def set_field_def copy_inv_def frame_def)

lemma preserves_item:
  assumes "\<And>e. next_dict h0 \<le> e \<Longrightarrow> preserves (copy_inv h0 fs items) (f e)"
  shows "preserves (copy_inv h0 fs items) (seq (list_item fs i) f)"
  unfolding preserves_def
proof (intro allI impI)
  fix h assume I: "copy_inv h0 fs items h"
  show "copy_inv h0 fs items (snd (seq (list_item fs i) f h))"
  proof (cases "i < length (list_at h fs)")
    case True
    then have "next_dict h0 \<le> list_at h fs ! i"
      using I by (simp add: copy_inv_def)
    from assms [OF this] I True show ?thesis
      by (simp add: preserves_def seq_def list_item_def)
  next
    case False
    then show ?thesis using I by (simp add: seq_def list_item_def)
  qed
qed

lemma preserves_items:
  assumes "\<And>es. \<forall>e\<in>set es. next_dict h0 \<le> e \<Longrightarrow> preserves (copy_inv h0 fs items) (f es)"
  shows "preserves (copy_inv h0 fs items) (seq (list_items fs) f)"
  unfolding preserves_def
proof (intro allI impI)
  fix h assume I: "copy_inv h0 fs items h"
  then have "\<forall>e\<in>set (list_at h fs). next_dict h0 \<le> e" by (simp add: copy_inv_def)
  from assms [OF this] I show "copy_inv h0 fs items (snd (seq (list_items fs) f h))"
    by (simp add: preserves_def seq_def list_items_def)
qed

lemma preserves_loop:
  assumes "\<And>x s. x \<in> set xs \<Longrightarrow> preserves I (body x s)"
  shows "preserves I (loop xs body s)"
  using assms
proof (induction xs arbitrary: s)
  case Nil
  show ?case by (simp add: preserves_ret)
next
  case (Cons x xs)
  show ?case using Cons by (simp add: preserves_seq)
qed

lemmas preserves_rules =
  preserves_item preserves_items preserves_seq preserves_get preserves_set preserves_len preserves_if
  preserves_option preserves_ret preserves_throw preserves_loop

lemma shift_scene_preserves:
  "preserves (copy_inv h0 fs items) (shift_scene fs amount j u)"
  unfolding shift_scene_def
  by (intro preserves_rules)

lemma trim_step_preserves:
  "preserves (copy_inv h0 fs items) (trim_step fs i u)"
  unfolding trim_step_def
  by (intro preserves_rules)

lemma shift_step_preserves:
  "preserves (copy_inv h0 fs items) (shift_step d fs i u)"
  unfolding shift_step_def Let_def
  by (intro preserves_rules)

lemma extend_step_preserves:
  "preserves (copy_inv h0 fs items) (extend_step d m fs i u)"
  unfolding extend_step_def Let_def
  by (intro preserves_rules shift_scene_preserves)

lemma rescale_step_preserves:
  assumes "next_dict h0 \<le> scene"
  shows "preserves (copy_inv h0 fs items) (rescale_step f scene c)"
  unfolding rescale_step_def
  by (intro preserves_rules assms)

subsection \<open>Programs that can only return one value\<close>

lemma returns_only_ret: "returns_only x (ret x)"
  by (simp add: returns_only_def ret_def)

lemma returns_only_throw: "returns_only x (throw e)"
  by (simp add: returns_only_def throw_def)

lemma returns_only_seq:
  assumes "\<And>y. returns_only x (f y)"
  shows "returns_only x (seq m f)"
  unfolding returns_only_def
proof (intro allI impI)
  fix h y assume r: "fst (seq m f h) = Inr y"
  obtain r' h' where m: "m h = (r', h')" by (cases "m h")
  show "y = x"
  proof (cases r')
    case (Inl e)
    then show ?thesis using r m by (simp add: seq_def)
  next
    case (Inr z)
    then show ?thesis using r m assms [of z] by (simp add: seq_def returns_only_def)
  qed
qed

lemma returns_only_if:
  assumes "c \<Longrightarrow> returns_only x m" "\<not> c \<Longrightarrow> returns_only x m'"
  shows "returns_only x (if c then m else m')"
  using assms by simp

lemmas returns_only_rules =
  returns_only_seq returns_only_if returns_only_ret returns_only_throw

subsection \<open>\<open>deepcopy\<close> allocates and writes nothing else\<close>

lemma frame_refl: "frame h h"
  by (simp add: frame_def)

lemma deepcopy_loop:
  assumes "frame h0 h" "\<forall>e\<in>set items. next_dict h0 \<le> e"
    "\<forall>e e'. memo e = Some e' \<longrightarrow> next_dict h0 \<le> e'"
  shows "\<exists>items' memo' h'. loop xs deepcopy_dict (items, memo) h = (Inr (items', memo'), h') \<and>
     frame h0 h' \<and> (\<forall>e\<in>set items'. next_dict h0 \<le> e) \<and>
     length items' = length items + length xs \<and>
     next_list h' = next_list h \<and> list_at h' = list_at h"
  using assms
proof (induction xs arbitrary: items memo h)
  case Nil
  then show ?case by (simp add: ret_def)
next
  case (Cons x xs)
  show ?case
  proof (cases "memo x")
    case (Some e')
    then have step: "deepcopy_dict x (items, memo) h = (Inr (items @ [e'], memo), h)"
      by (simp add: deepcopy_dict_def ret_def)
    have "\<forall>e\<in>set (items @ [e']). next_dict h0 \<le> e"
      using Cons.prems(2,3) Some by auto
    from Cons.IH [OF Cons.prems(1) this Cons.prems(3)] obtain items' memo' h' where
      r: "loop xs deepcopy_dict (items @ [e'], memo) h = (Inr (items', memo'), h')"
        "frame h0 h'" "\<forall>e\<in>set items'. next_dict h0 \<le> e"
        "length items' = length (items @ [e']) + length xs"
        "next_list h' = next_list h" "list_at h' = list_at h"
      by blast
    have "loop (x # xs) deepcopy_dict (items, memo) h = (Inr (items', memo'), h')"
      using step r(1) by (simp add: seq_def)
    then show ?thesis using r(2-6) by simp
  next
    case None
    let ?e = "next_dict h"
    let ?h = "h\<lparr>dict_at := (dict_at h)(?e := dict_at h x), next_dict := Suc ?e\<rparr>"
    have step: "deepcopy_dict x (items, memo) h = (Inr (items @ [?e], memo(x \<mapsto> ?e)), ?h)"
      using None by (simp add: deepcopy_dict_def ret_def seq_def get_dict_def new_dict_def)
    have le: "next_dict h0 \<le> ?e" using Cons.prems(1) by (simp add: frame_def)
    have f: "frame h0 ?h" using Cons.prems(1) by (simp add: frame_def)
    have i: "\<forall>e\<in>set (items @ [?e]). next_dict h0 \<le> e" using Cons.prems(2) le by auto
    have m: "\<forall>e e'. (memo(x \<mapsto> ?e)) e = Some e' \<longrightarrow> next_dict h0 \<le> e'"
      using Cons.prems(3) le by auto
    from Cons.IH [OF f i m] obtain items' memo' h' where
      r: "loop xs deepcopy_dict (items @ [?e], memo(x \<mapsto> ?e)) ?h = (Inr (items', memo'), h')"
        "frame h0 h'" "\<forall>e\<in>set items'. next_dict h0 \<le> e"
        "length items' = length (items @ [?e]) + length xs"
        "next_list h' = next_list ?h" "list_at h' = list_at ?h"
      by blast
    have "loop (x # xs) deepcopy_dict (items, memo) h = (Inr (items', memo'), h')"
      using step r(1) by (simp add: seq_def)
    then show ?thesis using r(2-6) by simp
  qed
qed

lemma deepcopy_spec:
  assumes "frame h0 h"
  shows "\<exists>fs items h1. deepcopy a h = (Inr fs, h1) \<and> copy_inv h0 fs items h1 \<and>
           length items = length (list_at h a) \<and> next_list h0 \<le> fs"
proof -
  obtain items memo' h' where
    l: "loop (list_at h a) deepcopy_dict ([], Map.empty) h = (Inr (items, memo'), h')"
      "frame h0 h'" "\<forall>e\<in>set items. next_dict h0 \<le> e"
      "length items = length (list_at h a)" "next_list h' = next_list h"
    using deepcopy_loop [OF assms, of "[]" Map.empty "list_at h a"] by auto
  let ?h1 = "h'\<lparr>list_at := (list_at h')(next_list h' := items), next_list := Suc (next_list h')\<rparr>"
  have d: "deepcopy a h = (Inr (next_list h'), ?h1)"
    using l(1) by (simp add: deepcopy_def seq_def list_items_def new_list_def)
  have le: "next_list h0 \<le> next_list h'" using l(2) by (simp add: frame_def)
  have "frame h0 ?h1" using l(2) by (simp add: frame_def)
  then have "copy_inv h0 (next_list h') items ?h1" using l(3) by (simp add: copy_inv_def)
  then show ?thesis using d l(4) le by blast
qed

subsection \<open>An operation that copies its argument and works on the copy\<close>

lemma copy_and_fix:
  assumes "frame h0 h"
    and "\<And>fs items. preserves (copy_inv h0 fs items) (rest fs)"
    and "\<And>fs. returns_only fs (rest fs)"
  shows "copied h0 (length (list_at h a)) a
     (seq (list_len a) (\<lambda>n. if n = 0 then ret a else seq (deepcopy a) rest) h)"
proof (cases "length (list_at h a) = 0")
  case True
  then show ?thesis using assms(1)
    by (simp add: seq_def list_len_def ret_def fresh_copy_def copied_def)
next
  case False
  obtain fs items h1 where
    d: "deepcopy a h = (Inr fs, h1)" "copy_inv h0 fs items h1"
      "length items = length (list_at h a)" "next_list h0 \<le> fs"
    using deepcopy_spec [OF assms(1), of a] by blast
  have run: "seq (list_len a) (\<lambda>n. if n = 0 then ret a else seq (deepcopy a) rest) h = rest fs h1"
    using False d(1) by (simp add: seq_def list_len_def)
  have I: "copy_inv h0 fs items (snd (rest fs h1))"
    using assms(2) [of fs items] d(2) by (simp add: preserves_def)
  have "fresh_copy h0 (length (list_at h a)) a fixed (snd (rest fs h1))"
    if "fst (rest fs h1) = Inr fixed" for fixed
  proof -
    have "fixed = fs" using assms(3) [of fs] that by (simp add: returns_only_def)
    then show ?thesis using I d(3,4) False by (simp add: fresh_copy_def copy_inv_def)
  qed
  then show ?thesis using I unfolding run by (simp add: copied_def copy_inv_def)
qed

lemma fix_overlaps_trim_previous_spec:
  assumes "frame h0 h"
  shows "copied h0 (length (list_at h a)) a (fix_overlaps_trim_previous a h)"
  unfolding fix_overlaps_trim_previous_def
  by (rule copy_and_fix [OF assms])
     (intro preserves_rules trim_step_preserves, intro returns_only_rules)

lemma fix_gaps_extend_previous_spec:
  assumes "frame h0 h"
  shows "copied h0 (length (list_at h a)) a (fix_gaps_extend_previous d a m h)"
  unfolding fix_gaps_extend_previous_def
  by (rule copy_and_fix [OF assms])
     (intro preserves_rules extend_step_preserves, intro returns_only_rules)

lemma fix_gaps_shift_following_spec:
  assumes "frame h0 h"
  shows "copied h0 (length (list_at h a)) a (fix_gaps_shift_following d a h)"
  unfolding fix_gaps_shift_following_def
  by (rule copy_and_fix [OF assms])
     (intro preserves_rules shift_step_preserves, intro returns_only_rules)

lemma enforce_total_duration_spec:
  assumes "frame h0 h"
  shows "copied h0 (length (list_at h a)) a (enforce_total_duration d a t h)"
  unfolding enforce_total_duration_def Let_def
proof (rule copy_and_fix [OF assms])
  fix fs items
  show "preserves (copy_inv h0 fs items)
     (seq (list_items fs) (\<lambda>items.
        seq (loop items
              (\<lambda>scene total. seq (get_field scene ''duration'') (\<lambda>du. ret (total + du))) 0)
          (\<lambda>current_total.
            if \<bar>current_total - t\<bar> < d then ret fs
            else if current_total = 0 then throw ZeroDivisionError
            else seq (list_items fs) (\<lambda>items'.
                 seq (loop items' (rescale_step (t / current_total)) 0) (\<lambda>actual_total.
                   if d < \<bar>actual_total - t\<bar> then
                     seq (list_len fs) (\<lambda>n'.
                     seq (list_item fs (n' - 1)) (\<lambda>last_scene.
                     seq (get_field last_scene ''duration'') (\<lambda>du.
                     seq (set_field last_scene ''duration'' (du + (t - actual_total))) (\<lambda>_.
                     seq (get_field last_scene ''end_time'') (\<lambda>en.
                     seq (set_field last_scene ''end_time'' (en + (t - actual_total))) (\<lambda>_.
                       ret fs))))))
                   else ret fs)))))"
    by (intro preserves_rules rescale_step_preserves) auto
next
  fix fs
  show "returns_only fs
     (seq (list_items fs) (\<lambda>items.
        seq (loop items
              (\<lambda>scene total. seq (get_field scene ''duration'') (\<lambda>du. ret (total + du))) 0)
          (\<lambda>current_total.
            if \<bar>current_total - t\<bar> < d then ret fs
            else if current_total = 0 then throw ZeroDivisionError
            else seq (list_items fs) (\<lambda>items'.
                 seq (loop items' (rescale_step (t / current_total)) 0) (\<lambda>actual_total.
                   if d < \<bar>actual_total - t\<bar> then
                     seq (list_len fs) (\<lambda>n'.
                     seq (list_item fs (n' - 1)) (\<lambda>last_scene.
                     seq (get_field last_scene ''duration'') (\<lambda>du.
                     seq (set_field last_scene ''duration'' (du + (t - actual_total))) (\<lambda>_.
                     seq (get_field last_scene ''end_time'') (\<lambda>en.
                     seq (set_field last_scene ''end_time'' (en + (t - actual_total))) (\<lambda>_.
                       ret fs))))))
                   else ret fs)))))"
    by (intro returns_only_rules)
qed

subsection \<open>\<open>fix_all_timing_issues\<close> composes copies\<close>

lemma seq_cases:
  assumes "\<And>e h'. m h = (Inl e, h') \<Longrightarrow> P (Inl e, h')"
    and "\<And>x h'. m h = (Inr x, h') \<Longrightarrow> P (f x h')"
  shows "P (seq m f h)"
proof (cases "m h")
  case (Pair r h')
  then show ?thesis using assms by (cases r) (simp_all add: seq_def)
qed

lemma copied_error: "frame h0 h \<Longrightarrow> copied h0 n a (Inl e, h)"
  by (simp add: copied_def)

lemma copied_again:
  assumes "copied h0 n a (Inr fixed, h)" "n \<noteq> 0"
    "copied h0 (length (list_at h fixed)) fixed res"
  shows "copied h0 n a res"
  using assms by (auto simp: copied_def fresh_copy_def)

lemma fix_all_timing_issues_spec:
  assumes "frame h0 h" "a < next_list h0"
  shows "copied h0 (length (list_at h a)) a (fix_all_timing_issues d a m h)"
proof (cases "length (list_at h a) = 0")
  case True
  then show ?thesis using assms(1)
    by (simp add: fix_all_timing_issues_def seq_def list_len_def ret_def copied_def
          fresh_copy_def)
next
  case False
  let ?n = "length (list_at h a)"
  let ?rest = "\<lambda>fixed1.
         seq (fix_gaps_extend_previous d fixed1 m) (\<lambda>fixed2.
         seq (validate_scene_continuity_at d fixed2 None) (\<lambda>validation.
           if \<not> is_valid validation then
             seq (fix_gaps_shift_following d a) (\<lambda>fixed3.
               fix_overlaps_trim_previous fixed3)
           else ret fixed2))"
  have run: "fix_all_timing_issues d a m h = seq (fix_overlaps_trim_previous a) ?rest h"
    using False by (simp add: fix_all_timing_issues_def seq_def list_len_def)
  have len: "length (list_at h' a) = ?n" if "frame h0 h'" for h'
    using that assms by (simp add: frame_def)
  show ?thesis
    unfolding run
  proof (rule seq_cases)
    fix e h1 assume "fix_overlaps_trim_previous a h = (Inl e, h1)"
    then show "copied h0 ?n a (Inl e, h1)"
      using fix_overlaps_trim_previous_spec [OF assms(1), where a = a]
      by (simp add: copied_def)
  next
    fix fixed1 h1 assume 1: "fix_overlaps_trim_previous a h = (Inr fixed1, h1)"
    then have c1: "copied h0 ?n a (Inr fixed1, h1)"
      using fix_overlaps_trim_previous_spec [OF assms(1), where a = a] by simp
    then have f1: "frame h0 h1" by (simp add: copied_def)
    show "copied h0 ?n a (?rest fixed1 h1)"
    proof (rule seq_cases)
      fix e h2 assume "fix_gaps_extend_previous d fixed1 m h1 = (Inl e, h2)"
      then show "copied h0 ?n a (Inl e, h2)"
        using fix_gaps_extend_previous_spec [OF f1, where a = fixed1 and d = d and m = m] by (simp add: copied_def)
    next
      fix fixed2 h2 assume 2: "fix_gaps_extend_previous d fixed1 m h1 = (Inr fixed2, h2)"
      then have "copied h0 (length (list_at h1 fixed1)) fixed1 (Inr fixed2, h2)"
        using fix_gaps_extend_previous_spec [OF f1, where a = fixed1 and d = d and m = m] by simp
      from copied_again [OF c1 False this] have c2: "copied h0 ?n a (Inr fixed2, h2)" .
      then have f2: "frame h0 h2" by (simp add: copied_def)
      show "copied h0 ?n a
         (seq (validate_scene_continuity_at d fixed2 None) (\<lambda>validation.
           if \<not> is_valid validation then
             seq (fix_gaps_shift_following d a) (\<lambda>fixed3.
               fix_overlaps_trim_previous fixed3)
           else ret fixed2) h2)"
      proof (rule seq_cases)
        fix e h3 assume "validate_scene_continuity_at d fixed2 None h2 = (Inl e, h3)"
        then have "h3 = h2" by (simp add: validate_scene_continuity_at_def)
        then show "copied h0 ?n a (Inl e, h3)" using f2 by (simp add: copied_def)
      next
        fix v h3 assume "validate_scene_continuity_at d fixed2 None h2 = (Inr v, h3)"
        then have h3: "h3 = h2" by (simp add: validate_scene_continuity_at_def)
        show "copied h0 ?n a
           ((if \<not> is_valid v then
               seq (fix_gaps_shift_following d a) (\<lambda>fixed3.
                 fix_overlaps_trim_previous fixed3)
             else ret fixed2) h3)"
        proof (cases "is_valid v")
          case True
          then show ?thesis using c2 h3 by (simp add: ret_def)
        next
          case invalid: False
          have "copied h0 ?n a
             (seq (fix_gaps_shift_following d a) (\<lambda>fixed3.
                fix_overlaps_trim_previous fixed3) h2)"
          proof (rule seq_cases)
            fix e h4 assume "fix_gaps_shift_following d a h2 = (Inl e, h4)"
            then show "copied h0 ?n a (Inl e, h4)"
              using fix_gaps_shift_following_spec [OF f2, where a = a and d = d] by (simp add: copied_def)
          next
            fix fixed3 h4 assume "fix_gaps_shift_following d a h2 = (Inr fixed3, h4)"
            then have c3: "copied h0 ?n a (Inr fixed3, h4)"
              using fix_gaps_shift_following_spec [OF f2, where a = a and d = d] len [OF f2] by simp
            then have f4: "frame h0 h4" by (simp add: copied_def)
            show "copied h0 ?n a (fix_overlaps_trim_previous fixed3 h4)"
              by (rule copied_again [OF c3 False])
                 (rule fix_overlaps_trim_previous_spec [OF f4])
          qed
          then show ?thesis using invalid h3 by simp
        qed
      qed
    qed
  qed
qed

subsection \<open>No operation mutates its argument\<close>

lemma run_operation_copied:
  assumes "a < next_list h"
  shows "copied h (length (list_at h a)) a (run_operation d op a h)"
proof (cases op)
  case (Extend_previous m)
  then show ?thesis using fix_gaps_extend_previous_spec [OF frame_refl] by simp
next
  case Shift_following
  then show ?thesis using fix_gaps_shift_following_spec [OF frame_refl] by simp
next
  case Trim_previous
  then show ?thesis using fix_overlaps_trim_previous_spec [OF frame_refl] by simp
next
  case (Fix_all m)
  then show ?thesis using fix_all_timing_issues_spec [OF frame_refl assms] by simp
next
  case (Enforce_total t)
  then show ?thesis using enforce_total_duration_spec [OF frame_refl] by simp
qed

text \<open>
  Claim C7, amended. Let the argument be an allocated list of allocated scene dicts.
  Whatever one of \<open>fix_gaps_extend_previous\<close>, \<open>fix_gaps_shift_following\<close>,
  \<open>fix_overlaps_trim_previous\<close>, \<open>fix_all_timing_issues\<close> and \<open>enforce_total_duration\<close>
  does, also when it raises, the argument list holds the same scenes afterwards and every
  scene of it has the fields it had. The list returned has the length of the argument; for
  a non-empty argument it is a new list object whose scenes are new dict objects, and for
  an empty argument it is the argument itself.
\<close>

theorem operations_do_not_mutate_input:
  assumes "a < next_list h" "\<forall>e\<in>set (list_at h a). e < next_dict h"
  shows "input_unchanged h a (snd (run_operation d op a h)) \<and>
     (\<forall>fixed. fst (run_operation d op a h) = Inr fixed \<longrightarrow>
        length (list_at (snd (run_operation d op a h)) fixed) = length (list_at h a) \<and>
        (if list_at h a = [] then fixed = a
         else fixed \<noteq> a \<and> next_list h \<le> fixed \<and>
              (\<forall>e\<in>set (list_at (snd (run_operation d op a h)) fixed).
                 next_dict h \<le> e \<and> e \<notin> set (list_at h a))))"
proof -
  let ?res = "run_operation d op a h"
  have c: "copied h (length (list_at h a)) a ?res"
    by (rule run_operation_copied [OF assms(1)])
  then have f: "frame h (snd ?res)" by (simp add: copied_def)
  have "input_unchanged h a (snd ?res)"
    using f assms by (simp add: frame_def input_unchanged_def)
  moreover have "length (list_at (snd ?res) fixed) = length (list_at h a) \<and>
        (if list_at h a = [] then fixed = a
         else fixed \<noteq> a \<and> next_list h \<le> fixed \<and>
              (\<forall>e\<in>set (list_at (snd ?res) fixed). next_dict h \<le> e \<and> e \<notin> set (list_at h a)))"
    if "fst ?res = Inr fixed" for fixed
  proof -
    have fc: "fresh_copy h (length (list_at h a)) a fixed (snd ?res)"
      using c that by (simp add: copied_def)
    show ?thesis
    proof (cases "list_at h a = []")
      case True
      then show ?thesis using fc by (auto simp: fresh_copy_def)
    next
      case False
      then have "next_list h \<le> fixed" "\<forall>e\<in>set (list_at (snd ?res) fixed). next_dict h \<le> e"
        "length (list_at (snd ?res) fixed) = length (list_at h a)"
        using fc by (simp_all add: fresh_copy_def)
      then show ?thesis using False assms by fastforce
    qed
  qed
  ultimately show ?thesis by blast
qed

theorem operations_do_not_mutate_input_witness:
  "input_unchanged example_heap 0 (snd (run_operation (1 / 1000) Trim_previous 0 example_heap))"
proof -
  have 1: "0 < next_list example_heap" by (simp add: example_heap_def)
  have 2: "\<forall>e\<in>set (list_at example_heap 0). e < next_dict example_heap"
    by (simp add: example_heap_def)
  show ?thesis
    using operations_do_not_mutate_input [OF 1 2, of "1 / 1000" Trim_previous] by blast
qed

text \<open>
  For the empty list the guard \<open>if not scenes: return scenes\<close> returns the argument, not a
  new list.
\<close>

theorem empty_timeline_returned_itself_counterexample:
  "fst (run_operation (1 / 1000) Trim_previous 0 empty_timeline_heap) = Inr 0 \<and>
   list_at empty_timeline_heap 0 = []"
  by (simp add: empty_timeline_heap_def fix_overlaps_trim_previous_def seq_def list_len_def
        ret_def)

subsection \<open>The heap model on examples\<close>

lemmas run_h = fix_overlaps_trim_previous_def trim_step_def deepcopy_def deepcopy_dict_def
  seq_def ret_def throw_def list_len_def list_item_def list_items_def get_dict_def get_field_def
  set_field_def new_dict_def new_list_def getitem_def

text \<open>
  On the overlap example the copy, at the new address 1, holds the trimmed scenes, and the
  argument, at address 0, holds the scenes it held.
\<close>

lemma trim_on_example_heap:
  "fst (fix_overlaps_trim_previous 0 example_heap) = Inr 1 \<and>
   list_at (snd (fix_overlaps_trim_previous 0 example_heap)) 1 = [3, 4, 5] \<and>
   timings_at (snd (fix_overlaps_trim_previous 0 example_heap)) 1 =
     [(Some 0, Some 10, Some 10), (Some 10, Some 23, Some 13), (Some 23, Some 38, Some 15)] \<and>
   timings_at (snd (fix_overlaps_trim_previous 0 example_heap)) 0 =
     [(Some 0, Some 12, Some 12), (Some 10, Some 25, Some 15), (Some 23, Some 38, Some 15)]"
  by (simp add: run_h example_heap_def example_overlaps_def mk_scene_def timings_at_def
        timing_def upt_conv_Cons)

text \<open>
  When a list holds one dict twice, so does its deep copy, and trimming the first scene
  changes the second: the theorems about lists of scene values are about timelines whose
  scenes are distinct objects.
\<close>

lemma trim_on_shared_heap:
  "fst (fix_overlaps_trim_previous 0 shared_heap) = Inr 1 \<and>
   list_at (snd (fix_overlaps_trim_previous 0 shared_heap)) 1 = [1, 1] \<and>
   timings_at (snd (fix_overlaps_trim_previous 0 shared_heap)) 1 =
     [(Some 0, Some (1 / 10), Some (1 / 10)), (Some 0, Some (1 / 10), Some (1 / 10))]"
  by (simp add: run_h shared_heap_def mk_scene_def timings_at_def timing_def upt_conv_Cons)
subsection \<open>The deep copy of a list of separate dicts\<close>

lemma deepcopy_loop_distinct:
  assumes "distinct xs" "\<forall>x\<in>set xs. memo x = None" "\<forall>x\<in>set xs. x < next_dict h"
  shows "\<exists>memo' h'. loop xs deepcopy_dict (acc, memo) h =
        (Inr (acc @ [next_dict h..<next_dict h + length xs], memo'), h') \<and>
      next_dict h' = next_dict h + length xs \<and> next_list h' = next_list h \<and>
      list_at h' = list_at h \<and> (\<forall>a<next_dict h. dict_at h' a = dict_at h a) \<and>
      map (dict_at h') [next_dict h..<next_dict h + length xs] = map (dict_at h) xs"
  using assms
proof (induction xs arbitrary: acc memo h)
  case Nil
  show ?case by (simp add: ret_def)
next
  case (Cons x xs)
  let ?n = "next_dict h"
  let ?h1 = "h\<lparr>dict_at := (dict_at h)(?n := dict_at h x), next_dict := Suc ?n\<rparr>"
  have step: "deepcopy_dict x (acc, memo) h = (Inr (acc @ [?n], memo(x \<mapsto> ?n)), ?h1)"
    using Cons.prems(2)
    by (simp add: deepcopy_dict_def ret_def seq_def get_dict_def new_dict_def)
  have d: "distinct xs" and nx: "x \<notin> set xs" using Cons.prems(1) by simp_all
  have m: "\<forall>y\<in>set xs. (memo(x \<mapsto> ?n)) y = None" using Cons.prems(2) nx by auto
  have a: "\<forall>y\<in>set xs. y < next_dict ?h1" using Cons.prems(3) by auto
  from Cons.IH [OF d m a, of "acc @ [?n]"] obtain memo' h' where
    r0: "loop xs deepcopy_dict (acc @ [?n], memo(x \<mapsto> ?n)) ?h1 =
          (Inr ((acc @ [?n]) @ [next_dict ?h1..<next_dict ?h1 + length xs], memo'), h')"
       "next_dict h' = next_dict ?h1 + length xs" "next_list h' = next_list ?h1"
       "list_at h' = list_at ?h1" "\<forall>a<next_dict ?h1. dict_at h' a = dict_at ?h1 a"
       "map (dict_at h') [next_dict ?h1..<next_dict ?h1 + length xs] = map (dict_at ?h1) xs"
    by blast
  have r: "loop xs deepcopy_dict (acc @ [?n], memo(x \<mapsto> ?n)) ?h1 =
          (Inr ((acc @ [?n]) @ [Suc ?n..<Suc ?n + length xs], memo'), h')"
       "next_dict h' = Suc ?n + length xs" "next_list h' = next_list h"
       "list_at h' = list_at h" "\<forall>a<Suc ?n. dict_at h' a = dict_at ?h1 a"
       "map (dict_at h') [Suc ?n..<Suc ?n + length xs] = map (dict_at ?h1) xs"
    using r0 by simp_all
  have upt: "[?n..<?n + length (x # xs)] = ?n # [Suc ?n..<Suc ?n + length xs]"
    using upt_conv_Cons [of ?n "?n + length (x # xs)"] by (simp del: upt_Suc)
  have run: "loop (x # xs) deepcopy_dict (acc, memo) h =
      (Inr (acc @ [?n..<?n + length (x # xs)], memo'), h')"
    using step r(1) unfolding upt by (simp add: seq_def)
  have old: "\<forall>a<?n. dict_at h' a = dict_at h a" using r(5) by simp
  have new: "dict_at h' ?n = dict_at h x" using r(5) by simp
  have "map (dict_at ?h1) xs = map (dict_at h) xs" using Cons.prems(3) by auto
  then have vals: "map (dict_at h') [?n..<?n + length (x # xs)] = map (dict_at h) (x # xs)"
    unfolding upt using new r(6) by simp
  show ?case using run r(2,3,4) old vals by (intro exI [of _ memo'] exI [of _ h']) simp
qed

lemma deepcopy_separate:
  assumes "separate h a"
  shows "\<exists>h1. deepcopy a h = (Inr (next_list h), h1) \<and> frame h h1 \<and>
           separate h1 (next_list h) \<and> scenes_at h1 (next_list h) = scenes_at h a"
proof -
  let ?xs = "list_at h a"
  let ?items = "[next_dict h..<next_dict h + length ?xs]"
  have p: "distinct ?xs" "\<forall>x\<in>set ?xs. Map.empty x = None" "\<forall>x\<in>set ?xs. x < next_dict h"
    using assms by (simp_all add: separate_def)
  from deepcopy_loop_distinct [OF p, of "[]"] obtain memo' h' where
    l: "loop ?xs deepcopy_dict ([], Map.empty) h = (Inr (?items, memo'), h')"
       "next_dict h' = next_dict h + length ?xs" "next_list h' = next_list h"
       "list_at h' = list_at h" "\<forall>a<next_dict h. dict_at h' a = dict_at h a"
       "map (dict_at h') ?items = map (dict_at h) ?xs"
    by auto
  let ?h1 = "h'\<lparr>list_at := (list_at h')(next_list h' := ?items), next_list := Suc (next_list h')\<rparr>"
  have d: "deepcopy a h = (Inr (next_list h), ?h1)"
    using l(1,3) by (simp add: deepcopy_def seq_def list_items_def new_list_def)
  have f: "frame h ?h1" using l(2-5) by (simp add: frame_def)
  have s: "separate ?h1 (next_list h)" using l(2,3) by (simp add: separate_def)
  have v: "scenes_at ?h1 (next_list h) = scenes_at h a"
    using l(3,6) by (simp add: scenes_at_def)
  show ?thesis using d f s v by blast
qed


end
